theory Spec2Isabelle
  imports Main
begin

section \<open>Strings, numbers and JavaScript values\<close>

text \<open>
  The report dashboard of \<^verbatim>\<open>staticfiles/js/reportes-dashboard.js\<close> (the variant with the
  response cache, the in-flight registry and lazy loading) and, where the two differ,
  of \<^verbatim>\<open>static/js/reportes-dashboard.js\<close> (the eager variant without a cache).

  A JavaScript string is modelled by the bytes of its UTF-8 encoding: every character the
  code inspects (the HTML and JSON metacharacters, the URL-safe set) is ASCII, and a
  non-ASCII character is a run of bytes above 127 that all these functions pass through
  or escape byte by byte, exactly as the URL serializer does.
\<close>

definition digit_char :: "nat \<Rightarrow> char" where
  "digit_char d = ''0123456789'' ! (d mod 10)"

text \<open>\<^verbatim>\<open>String(n)\<close> for a non-negative integer: its decimal numeral.\<close>

fun nat_to_string :: "nat \<Rightarrow> string" where
  "nat_to_string n =
     (if n < 10 then [digit_char n] else nat_to_string (n div 10) @ [digit_char (n mod 10)])"

declare nat_to_string.simps [simp del]

definition hex_lower :: "nat \<Rightarrow> char" where
  "hex_lower d = ''0123456789abcdef'' ! (d mod 16)"

definition hex_upper :: "nat \<Rightarrow> char" where
  "hex_upper d = ''0123456789ABCDEF'' ! (d mod 16)"

text \<open>
  The values a filter can hold. In the program they are strings (the \<^verbatim>\<open>value\<close> of an input,
  a literal of the configuration, a field of the global range); \<^verbatim>\<open>null\<close> and
  \<^verbatim>\<open>undefined\<close> are what a caller of \<^verbatim>\<open>fetchReport\<close> may pass besides.
\<close>

datatype jsval = Undefined | Null | Str string

text \<open>Truthiness, as \<^verbatim>\<open>if (value)\<close> tests it.\<close>

fun truthy :: "jsval \<Rightarrow> bool" where
  "truthy Undefined = False"
| "truthy Null = False"
| "truthy (Str s) = (s \<noteq> [])"

text \<open>
  A plain object is the list of its own properties in enumeration order, which for
  names that are not array indices is the order of first assignment.
  \<^verbatim>\<open>o[k] = v\<close> overwrites in place or appends; \<^verbatim>\<open>Object.assign\<close> and the spread
  \<^verbatim>\<open>{...o}\<close> replay the source's properties in order.
\<close>

type_synonym obj = "(string \<times> jsval) list"

fun obj_set :: "('k \<times> 'v) list \<Rightarrow> 'k \<Rightarrow> 'v \<Rightarrow> ('k \<times> 'v) list" where
  "obj_set [] k v = [(k, v)]"
| "obj_set ((k', v') # ps) k v = (if k' = k then (k, v) # ps else (k', v') # obj_set ps k v)"

definition obj_assign :: "('k \<times> 'v) list \<Rightarrow> ('k \<times> 'v) list \<Rightarrow> ('k \<times> 'v) list" where
  "obj_assign target source = foldl (\<lambda>t (k, v). obj_set t k v) target source"

definition obj_get :: "('k \<times> 'v) list \<Rightarrow> 'k \<Rightarrow> 'v option" where
  "obj_get ps k = map_of ps k"

section \<open>JSON.stringify and the cache key\<close>

text \<open>
  \<^verbatim>\<open>JSON.stringify\<close> on a string: the quote and the backslash are escaped, control
  characters become \<^verbatim>\<open>\b \t \n \f \r\<close> or \<^verbatim>\<open>\u00XX\<close>, everything else is literal.
\<close>

definition quoteJSONChar :: "char \<Rightarrow> string" where
  "quoteJSONChar c =
     (if c = CHR 0x08 then [CHR 0x5C, CHR ''b'']
      else if c = CHR 0x09 then [CHR 0x5C, CHR ''t'']
      else if c = CHR 0x0A then [CHR 0x5C, CHR ''n'']
      else if c = CHR 0x0C then [CHR 0x5C, CHR ''f'']
      else if c = CHR 0x0D then [CHR 0x5C, CHR ''r'']
      else if c = CHR 0x22 then [CHR 0x5C, CHR 0x22]
      else if c = CHR 0x5C then [CHR 0x5C, CHR 0x5C]
      else if (of_char c :: nat) < 32
        then [CHR 0x5C, CHR ''u'', CHR ''0'', CHR ''0'',
              hex_lower ((of_char c :: nat) div 16), hex_lower ((of_char c :: nat) mod 16)]
      else [c])"

definition quoteJSONString :: "string \<Rightarrow> string" where
  "quoteJSONString s = [CHR 0x22] @ concat (map quoteJSONChar s) @ [CHR 0x22]"

fun join :: "string \<Rightarrow> string list \<Rightarrow> string" where
  "join sep [] = []"
| "join sep [x] = x"
| "join sep (x # y # ys) = x @ sep @ join sep (y # ys)"

text \<open>
  \<^verbatim>\<open>JSON.stringify\<close> on an object of such values: the properties in enumeration order,
  a property whose value is \<^verbatim>\<open>undefined\<close> left out, \<^verbatim>\<open>null\<close> written as such.
  No key is sorted.
\<close>

fun stringify_member :: "string \<times> jsval \<Rightarrow> string list" where
  "stringify_member (k, Undefined) = []"
| "stringify_member (k, Null) = [quoteJSONString k @ '':null'']"
| "stringify_member (k, Str s) = [quoteJSONString k @ '':'' @ quoteJSONString s]"

definition JSON_stringify :: "obj \<Rightarrow> string" where
  "JSON_stringify ob = ''{'' @ join '','' (concat (map stringify_member ob)) @ ''}''"

text \<open>
  \<^verbatim>\<open>this.globalFilters = { start: "", end: "" }\<close>: both fields are always strings
  (\<^verbatim>\<open>this.rangeStart?.value || ""\<close>), and \<^verbatim>\<open>start\<close> is enumerated first.
\<close>

record globalFilters =
  range_start :: string
  range_end :: string

definition globalFilters_obj :: "globalFilters \<Rightarrow> obj" where
  "globalFilters_obj g = [(''start'', Str (range_start g)), (''end'', Str (range_end g))]"

text \<open>
  The \<^verbatim>\<open>options\<close> argument of \<^verbatim>\<open>fetchReport\<close> and \<^verbatim>\<open>generateCacheKey\<close>:
  \<^verbatim>\<open>filters\<close> may be absent, \<^verbatim>\<open>useGlobalFilters\<close> is read for its truthiness only.
\<close>

record options =
  filters :: "obj option"
  useGlobalFilters :: bool

definition generateCacheKey :: "string \<Rightarrow> options \<Rightarrow> globalFilters \<Rightarrow> string" where
  "generateCacheKey type opts g =
     (let fs = (case filters opts of None \<Rightarrow> [] | Some f \<Rightarrow> f);
          useGlobal = (if useGlobalFilters opts then ''global'' else ''custom'');
          filterStr = JSON_stringify fs;
          globalStr = JSON_stringify (globalFilters_obj g)
      in type @ ''-'' @ useGlobal @ ''-'' @ filterStr @ ''-'' @ globalStr)"

section \<open>Payloads and the report registry\<close>

text \<open>A parsed JSON response. Only integer number literals are represented; no function
  below inspects a number.\<close>

datatype json =
  JNull | JBool bool | JNum int | JString string | JArray "json list"
  | JObject "(string \<times> json) list"

text \<open>
  One entry of \<^verbatim>\<open>REPORT_CONFIG\<close>. \<^verbatim>\<open>paramMap\<close> and \<^verbatim>\<open>defaultFilters\<close> may be absent;
  \<^verbatim>\<open>supportsRange\<close> is read as \<^verbatim>\<open>supportsRange !== false\<close>. \<^verbatim>\<open>renderRow\<close> yields
  \<open>None\<close> where the JavaScript throws (a row that is \<^verbatim>\<open>null\<close>).
\<close>

record descriptor =
  endpoint :: string
  supportsRange :: bool
  paramMap :: "(string \<times> string) list option"
  defaultFilters :: "obj option"
  cardValue :: "json \<Rightarrow> string"
  rowsExtractor :: "(json \<Rightarrow> json list) option"
  renderRow :: "json \<Rightarrow> string option"
  emptyMessage :: "string option"

text \<open>\<^verbatim>\<open>(data) => (Array.isArray(data?.rows) ? data.rows : [])\<close>, for the field named.\<close>

definition rows_of :: "string \<Rightarrow> json \<Rightarrow> json list" where
  "rows_of field data =
     (case data of
        JObject ms \<Rightarrow> (case map_of ms field of Some (JArray rs) \<Rightarrow> rs | _ \<Rightarrow> [])
      | _ \<Rightarrow> [])"

text \<open>
  The registry. Its data fields are transcribed; the card and row renderers, which format
  through \<^verbatim>\<open>Intl.NumberFormat\<close>, are taken as parameters indexed by the report type.
  Accented letters are written as their UTF-8 bytes.
\<close>

definition REPORT_CONFIG ::
  "(string \<Rightarrow> json \<Rightarrow> string) \<Rightarrow> (string \<Rightarrow> json \<Rightarrow> string option) \<Rightarrow> (string \<times> descriptor) list"
where
  "REPORT_CONFIG cv rr =
   [(''total-sales'',
       \<lparr>endpoint = ''/app/reportes/ventas-totales/'', supportsRange = True,
        paramMap = Some [(''start'', ''fecha_inicio''), (''end'', ''fecha_fin'')],
        defaultFilters = None, cardValue = cv ''total-sales'',
        rowsExtractor = Some (rows_of ''rows''), renderRow = rr ''total-sales'',
        emptyMessage = Some ''No se encontraron ventas para los filtros seleccionados.''\<rparr>),
    (''sales-cost'',
       \<lparr>endpoint = ''/app/reportes/costo-ventas/'', supportsRange = True,
        paramMap = Some [(''start'', ''fecha_inicio''), (''end'', ''fecha_fin'')],
        defaultFilters = None, cardValue = cv ''sales-cost'',
        rowsExtractor = Some (rows_of ''rows''), renderRow = rr ''sales-cost'',
        emptyMessage = Some ''No se encontraron registros para los filtros seleccionados.''\<rparr>),
    (''inventory-cost'',
       \<lparr>endpoint = ''/app/reportes/costo-inventario/'', supportsRange = False,
        paramMap = None,
        defaultFilters = None, cardValue = cv ''inventory-cost'',
        rowsExtractor = Some (rows_of ''rows''), renderRow = rr ''inventory-cost'',
        emptyMessage = Some ''No se encontraron productos con stock disponible.''\<rparr>),
    (''sales-period'',
       \<lparr>endpoint = ''/app/reportes/ventas-periodo/'', supportsRange = True,
        paramMap = Some [(''start'', ''fecha_inicio''), (''end'', ''fecha_fin''), (''period'', ''period'')],
        defaultFilters = None, cardValue = cv ''sales-period'',
        rowsExtractor = Some (rows_of ''rows''), renderRow = rr ''sales-period'',
        emptyMessage = Some ''No se encontraron ventas para los filtros seleccionados.''\<rparr>),
    (''profit-period'',
       \<lparr>endpoint = ''/app/reportes/ganancias-periodo/'', supportsRange = True,
        paramMap = Some [(''start'', ''fecha_inicio''), (''end'', ''fecha_fin''), (''period'', ''period'')],
        defaultFilters = None, cardValue = cv ''profit-period'',
        rowsExtractor = Some (rows_of ''rows''), renderRow = rr ''profit-period'',
        emptyMessage = Some ''No se encontraron resultados para los filtros seleccionados.''\<rparr>),
    (''product-sales'',
       \<lparr>endpoint = ''/app/reportes/ventas-producto/'', supportsRange = True,
        paramMap = Some [(''start'', ''fecha_inicio''), (''end'', ''fecha_fin''), (''search'', ''q'')],
        defaultFilters = None, cardValue = cv ''product-sales'',
        rowsExtractor = Some (rows_of ''rows''), renderRow = rr ''product-sales'',
        emptyMessage = Some (''No se encontraron resultados para la b'' @ [CHR 0xC3, CHR 0xBA]
                             @ ''squeda aplicada.'')\<rparr>),
    (''category-analysis'',
       \<lparr>endpoint = ''/app/reportes/categorias-analitico/'', supportsRange = False,
        paramMap = Some [(''search'', ''q'')],
        defaultFilters = None, cardValue = cv ''category-analysis'',
        rowsExtractor = Some (rows_of ''rows''), renderRow = rr ''category-analysis'',
        emptyMessage = Some (''No se encontraron registros que coincidan con la b''
                             @ [CHR 0xC3, CHR 0xBA] @ ''squeda.'')\<rparr>),
    (''cash-status'',
       \<lparr>endpoint = ''/app/reportes/caja/'', supportsRange = True,
        paramMap = Some [(''start'', ''fecha_inicio''), (''end'', ''fecha_fin''),
                         (''page_size'', ''page_size'')],
        defaultFilters = Some [(''page_size'', Str ''10'')], cardValue = cv ''cash-status'',
        rowsExtractor = Some (rows_of ''sessions''), renderRow = rr ''cash-status'',
        emptyMessage = Some ''No se encontraron sesiones de caja para los filtros aplicados.''\<rparr>),
    (''credit-installments'',
       \<lparr>endpoint = ''/app/reportes/cuotas/'', supportsRange = True,
        paramMap = Some [(''start'', ''fecha_inicio''), (''end'', ''fecha_fin''), (''status'', ''estado'')],
        defaultFilters = None, cardValue = cv ''credit-installments'',
        rowsExtractor = Some (rows_of ''creditos''), renderRow = rr ''credit-installments'',
        emptyMessage = Some (''No se encontraron cr'' @ [CHR 0xC3, CHR 0xA9]
                             @ ''ditos para los filtros seleccionados.'')\<rparr>)]"

section \<open>Building the request URL\<close>

text \<open>\<^verbatim>\<open>String(value)\<close> on a filter value, as \<^verbatim>\<open>URLSearchParams\<close> converts what it is given.\<close>

fun toString :: "jsval \<Rightarrow> string" where
  "toString Undefined = ''undefined''"
| "toString Null = ''null''"
| "toString (Str s) = s"

text \<open>
  \<^verbatim>\<open>URLSearchParams.prototype.toString\<close>: the form-urlencoded serializer. A space becomes
  \<^verbatim>\<open>+\<close>, the bytes \<^verbatim>\<open>* - . _\<close>, digits and ASCII letters stay, any other byte is
  percent-encoded in upper-case hexadecimal.
\<close>

definition urlencode_byte :: "char \<Rightarrow> string" where
  "urlencode_byte c =
     (let n = (of_char c :: nat) in
      if c = CHR '' '' then ''+''
      else if c \<in> set ''*-._'' \<or> (48 \<le> n \<and> n \<le> 57) \<or> (65 \<le> n \<and> n \<le> 90) \<or> (97 \<le> n \<and> n \<le> 122)
        then [c]
      else [CHR ''%'', hex_upper (n div 16), hex_upper (n mod 16)])"

definition urlencode :: "string \<Rightarrow> string" where
  "urlencode s = concat (map urlencode_byte s)"

definition params_toString :: "(string \<times> string) list \<Rightarrow> string" where
  "params_toString ps = join ''&'' (map (\<lambda>(n, v). urlencode n @ ''='' @ urlencode v) ps)"

text \<open>
  \<^verbatim>\<open>config.paramMap?.start || "start"\<close>, for the key named. The lookup is among the
  own properties of \<^verbatim>\<open>paramMap\<close>; a key that names a member of \<^verbatim>\<open>Object.prototype\<close>
  is outside this model, as is a report type of that kind in the registry lookup.
\<close>

definition mapped_or_self :: "descriptor \<Rightarrow> string \<Rightarrow> string" where
  "mapped_or_self c k =
     (case paramMap c of
        None \<Rightarrow> k
      | Some m \<Rightarrow> (case map_of m k of None \<Rightarrow> k | Some n \<Rightarrow> if n = [] then k else n))"

text \<open>
  \<^verbatim>\<open>fetchReport\<close> of \<^verbatim>\<open>staticfiles/js\<close>, lines 501-523. The merged filter object:
  a copy of the defaults, then the global range under the mapped names of \<^verbatim>\<open>start\<close>
  and \<^verbatim>\<open>end\<close>, then the explicit filters under their own keys.
\<close>

definition fetchReport_filters :: "descriptor \<Rightarrow> options \<Rightarrow> globalFilters \<Rightarrow> obj" where
  "fetchReport_filters c opts g =
     (let f0 = obj_assign [] (case defaultFilters c of None \<Rightarrow> [] | Some d \<Rightarrow> d);
          f1 = (if useGlobalFilters opts \<and> supportsRange c
                then (let fa = (if range_start g \<noteq> []
                                then obj_set f0 (mapped_or_self c ''start'') (Str (range_start g))
                                else f0)
                      in if range_end g \<noteq> []
                         then obj_set fa (mapped_or_self c ''end'') (Str (range_end g))
                         else fa)
                else f0)
      in case filters opts of None \<Rightarrow> f1 | Some f \<Rightarrow> obj_assign f1 f)"

text \<open>\<^verbatim>\<open>if (value) { params.append(key, value); }\<close> over \<^verbatim>\<open>Object.entries(filters)\<close>.\<close>

definition append_params :: "obj \<Rightarrow> (string \<times> string) list" where
  "append_params fs = concat (map (\<lambda>(key, v). if truthy v then [(key, toString v)] else []) fs)"

definition fetchReport_params :: "descriptor \<Rightarrow> options \<Rightarrow> globalFilters \<Rightarrow> (string \<times> string) list" where
  "fetchReport_params c opts g = append_params (fetchReport_filters c opts g)"

definition fetchReport_url :: "descriptor \<Rightarrow> options \<Rightarrow> globalFilters \<Rightarrow> string" where
  "fetchReport_url c opts g = endpoint c @ ''?'' @ params_toString (fetchReport_params c opts g)"

text \<open>
  \<^verbatim>\<open>fetchReport\<close> of \<^verbatim>\<open>static/js\<close>, lines 402-429: the global range is merged under
  \<^verbatim>\<open>start\<close> and \<^verbatim>\<open>end\<close>, and every surviving key goes through
  \<^verbatim>\<open>map[key] || key\<close> into \<^verbatim>\<open>params.set\<close>, which overwrites an entry of the same name.
\<close>

definition static_fetchReport_filters :: "descriptor \<Rightarrow> options \<Rightarrow> globalFilters \<Rightarrow> obj" where
  "static_fetchReport_filters c opts g =
     (let f0 = obj_assign [] (case defaultFilters c of None \<Rightarrow> [] | Some d \<Rightarrow> d);
          f1 = (if useGlobalFilters opts \<and> supportsRange c
                then (let fa = (if range_start g \<noteq> []
                                then obj_set f0 ''start'' (Str (range_start g)) else f0)
                      in if range_end g \<noteq> []
                         then obj_set fa ''end'' (Str (range_end g)) else fa)
                else f0)
      in case filters opts of None \<Rightarrow> f1 | Some f \<Rightarrow> obj_assign f1 f)"

definition set_params :: "descriptor \<Rightarrow> obj \<Rightarrow> (string \<times> string) list" where
  "set_params c fs =
     foldl (\<lambda>ps (key, v).
              if v = Null \<or> v = Undefined \<or> v = Str [] then ps
              else obj_set ps (mapped_or_self c key) (toString v)) [] fs"

definition static_fetchReport_params :: "descriptor \<Rightarrow> options \<Rightarrow> globalFilters \<Rightarrow> (string \<times> string) list" where
  "static_fetchReport_params c opts g = set_params c (static_fetchReport_filters c opts g)"

definition static_fetchReport_url :: "descriptor \<Rightarrow> options \<Rightarrow> globalFilters \<Rightarrow> string" where
  "static_fetchReport_url c opts g =
     (let q = params_toString (static_fetchReport_params c opts g)
      in if q \<noteq> [] then endpoint c @ ''?'' @ q else endpoint c)"

section \<open>Rendering the table of a modal\<close>

definition em_dash :: string where
  "em_dash = [CHR 0xE2, CHR 0x80, CHR 0x94]"

definition replace_all :: "char \<Rightarrow> string \<Rightarrow> string \<Rightarrow> string" where
  "replace_all c r s = concat (map (\<lambda>x. if x = c then r else [x]) s)"

text \<open>\<^verbatim>\<open>escapeHtml\<close>: the five replacements in the order of the source.\<close>

fun escapeHtml :: "jsval \<Rightarrow> string" where
  "escapeHtml Null = em_dash"
| "escapeHtml Undefined = em_dash"
| "escapeHtml (Str s) =
     replace_all (CHR 0x27) ''&#39;''
       (replace_all (CHR 0x22) ''&quot;''
         (replace_all CHR ''>'' ''&gt;''
           (replace_all CHR ''<'' ''&lt;''
             (replace_all CHR ''&'' ''&amp;'' s))))"

text \<open>
  A \<^verbatim>\<open>ReportModal\<close>: its flags, its configuration, and the part of its markup the code
  reads or writes. A filter node is its \<^verbatim>\<open>data-filter\<close> attribute (empty when missing)
  and its value; \<^verbatim>\<open>tableBody\<close> is the \<^verbatim>\<open>innerHTML\<close> of the table body (\<open>None\<close>: the
  modal has none); \<^verbatim>\<open>headerCells\<close> is the number of \<^verbatim>\<open>thead th\<close> cells of the enclosing
  table (\<open>None\<close>: the body is in no table); \<^verbatim>\<open>emptyHidden\<close> is the \<^verbatim>\<open>hidden\<close> flag
  of the empty-state node, when there is one.
\<close>

record modal =
  mtype :: string
  config :: descriptor
  isOpen :: bool
  loadedOnce :: bool
  lastFilters :: obj
  is_visible :: bool
  loading :: bool
  filterNodes :: "(string \<times> string) list"
  tableBody :: "string option"
  headerCells :: "nat option"
  emptyHidden :: "bool option"

definition getTableColumnCount :: "modal \<Rightarrow> nat" where
  "getTableColumnCount m =
     (case headerCells m of None \<Rightarrow> 1 | Some n \<Rightarrow> if n = 0 then 1 else n)"

definition spaces :: "nat \<Rightarrow> string" where
  "spaces n = replicate n CHR '' ''"

text \<open>The template literal of the empty state, with its line breaks and indentation.\<close>

definition empty_state_row :: "nat \<Rightarrow> string \<Rightarrow> string" where
  "empty_state_row columnCount text =
     [CHR 0x0A] @ spaces 20 @ ''<tr>'' @
     [CHR 0x0A] @ spaces 24 @ ''<td colspan='' @ [CHR 0x22] @ nat_to_string columnCount @ [CHR 0x22]
        @ '' class='' @ [CHR 0x22] @ ''report-empty-state'' @ [CHR 0x22] @ ''>'' @ text @ ''</td>'' @
     [CHR 0x0A] @ spaces 20 @ ''</tr>'' @
     [CHR 0x0A] @ spaces 16"

text \<open>\<^verbatim>\<open>renderTable\<close>; \<open>None\<close> when a \<^verbatim>\<open>renderRow\<close> call throws, before anything is written.\<close>

definition renderTable :: "modal \<Rightarrow> json \<Rightarrow> modal option" where
  "renderTable m data =
     (case tableBody m of
        None \<Rightarrow> Some m
      | Some _ \<Rightarrow>
          (let rows = (case rowsExtractor (config m) of Some ex \<Rightarrow> ex data | None \<Rightarrow> [])
           in if rows \<noteq> []
              then (case those (map (renderRow (config m)) rows) of
                      None \<Rightarrow> None
                    | Some hs \<Rightarrow>
                        Some (m\<lparr>tableBody := Some (concat hs),
                                emptyHidden := map_option (\<lambda>_. True) (emptyHidden m)\<rparr>))
              else (let columnCount = getTableColumnCount m;
                        message = (case emptyMessage (config m) of
                                     None \<Rightarrow> ''Sin resultados disponibles.''
                                   | Some s \<Rightarrow> if s = [] then ''Sin resultados disponibles.'' else s)
                    in Some (m\<lparr>tableBody := Some (empty_state_row columnCount (escapeHtml (Str message))),
                               emptyHidden := map_option (\<lambda>_. False) (emptyHidden m)\<rparr>))))"

text \<open>\<^verbatim>\<open>collectFilters\<close>: every named filter node, empty values included, in document order.\<close>

definition collectFilters :: "modal \<Rightarrow> obj" where
  "collectFilters m =
     foldl (\<lambda>data (key, v). if key = [] then data else obj_set data key (Str v)) [] (filterNodes m)"

section \<open>The dashboard, its cache and its requests\<close>

datatype jserror = JSError string string

datatype promise_state = Pending | Fulfilled json | Rejected jserror

text \<open>
  What \<^verbatim>\<open>fetchReport\<close> returns: \<^verbatim>\<open>Promise.resolve(data)\<close>, \<^verbatim>\<open>Promise.reject(error)\<close>, or
  the promise chained on the \<open>n\<close>-th \<^verbatim>\<open>fetch\<close> call of the page.
\<close>

datatype promise = Resolved json | RejectedNow jserror | OfRequest nat

text \<open>
  The continuations the callers chain on such a promise: the \<^verbatim>\<open>then/catch/finally\<close> of
  \<^verbatim>\<open>loadCardData\<close> after its own \<^verbatim>\<open>fetchReport\<close> (card, type, captured cache key), the
  \<^verbatim>\<open>then/catch\<close> of \<^verbatim>\<open>loadCardData\<close> on a promise found in flight (card, type), and the
  \<^verbatim>\<open>then/catch/finally\<close> of \<^verbatim>\<open>runReport\<close> (the modal's type).
\<close>

datatype reaction = CardOwner nat string string | CardWaiter nat string | ModalRun string

record request =
  req_url :: string
  req_key :: string
  req_state :: promise_state
  reactions :: "reaction list"

text \<open>
  A card element: its \<^verbatim>\<open>data-report-trigger\<close> attribute (empty when missing), the
  \<^verbatim>\<open>dataset.loaded\<close> marker, whether the intersection observer still observes it, the
  \<^verbatim>\<open>report-card--loading\<close> class and the text of its value node, when it has one.
\<close>

record card =
  trigger :: string
  loaded :: bool
  observed :: bool
  card_loading :: bool
  summary_value :: "string option"

record dashboard =
  globalFilters :: globalFilters
  cache :: "string \<rightharpoonup> json"
  loadingPromises :: "string \<rightharpoonup> promise"
  requests :: "request list"
  cardElements :: "card list"
  modals :: "string \<rightharpoonup> modal"
  activeModal :: "string option"
  toasts :: "(string \<times> string) list"

text \<open>The state the constructor and \<^verbatim>\<open>init\<close> leave, for the cards and modals of the page.\<close>

definition init_dashboard :: "card list \<Rightarrow> (string \<rightharpoonup> modal) \<Rightarrow> dashboard" where
  "init_dashboard cs ms =
     \<lparr>globalFilters = \<lparr>range_start = [], range_end = []\<rparr>,
      cache = Map.empty, loadingPromises = Map.empty, requests = [],
      cardElements = cs, modals = ms, activeModal = None, toasts = []\<rparr>"

definition showToast :: "string \<Rightarrow> string \<Rightarrow> dashboard \<Rightarrow> dashboard" where
  "showToast message kind d = d\<lparr>toasts := toasts d @ [(message, kind)]\<rparr>"

definition clearCache :: "dashboard \<Rightarrow> dashboard" where
  "clearCache d =
     d\<lparr>cache := Map.empty, loadingPromises := Map.empty,
       cardElements := map (\<lambda>c. c\<lparr>loaded := False\<rparr>) (cardElements d)\<rparr>"

definition ellipsis :: string where
  "ellipsis = [CHR 0xE2, CHR 0x80, CHR 0xA6]"

definition setCardLoading :: "nat \<Rightarrow> bool \<Rightarrow> dashboard \<Rightarrow> dashboard" where
  "setCardLoading i isLoading d =
     (if i < length (cardElements d)
      then (let c = cardElements d ! i
            in d\<lparr>cardElements := (cardElements d)
                    [i := c\<lparr>card_loading := isLoading,
                            summary_value := (if isLoading then map_option (\<lambda>_. ellipsis) (summary_value c)
                                              else summary_value c)\<rparr>]\<rparr>)
      else d)"

definition updateCardValue :: "nat \<Rightarrow> string \<Rightarrow> dashboard \<Rightarrow> dashboard" where
  "updateCardValue i v d =
     (if i < length (cardElements d)
      then (let c = cardElements d ! i
            in d\<lparr>cardElements := (cardElements d)[i := c\<lparr>summary_value := map_option (\<lambda>_. v) (summary_value c)\<rparr>]\<rparr>)
      else d)"

text \<open>
  \<^verbatim>\<open>fetchReport\<close> of \<^verbatim>\<open>staticfiles/js\<close>, up to the point where it returns its promise:
  unknown type, cache hit, promise in flight, or a new \<^verbatim>\<open>fetch\<close> whose promise is
  registered under the cache key. The network log \<^verbatim>\<open>requests\<close> grows by one exactly
  when \<^verbatim>\<open>fetch\<close> is called.
\<close>

definition fetchReport ::
  "(string \<rightharpoonup> descriptor) \<Rightarrow> string \<Rightarrow> options \<Rightarrow> dashboard \<Rightarrow> promise \<times> dashboard" where
  "fetchReport cfg type opts d =
     (case cfg type of
        None \<Rightarrow> (RejectedNow (JSError ''Error'' (''Reporte no configurado: '' @ type)), d)
      | Some c \<Rightarrow>
          (let cacheKey = generateCacheKey type opts (globalFilters d)
           in case cache d cacheKey of
                Some data \<Rightarrow> (Resolved data, d)
              | None \<Rightarrow>
                  (let url = fetchReport_url c opts (globalFilters d)
                   in case loadingPromises d cacheKey of
                        Some pr \<Rightarrow> (pr, d)
                      | None \<Rightarrow>
                          (let p = length (requests d)
                           in (OfRequest p,
                               d\<lparr>requests := requests d @
                                    [\<lparr>req_url = url, req_key = cacheKey,
                                      req_state = Pending, reactions = []\<rparr>],
                                 loadingPromises := (loadingPromises d)(cacheKey \<mapsto> OfRequest p)\<rparr>)))))"

text \<open>
  \<^verbatim>\<open>render\<close>, as far as the table goes (the summary slots are written by
  \<^verbatim>\<open>renderSummary\<close>, which reads nothing else and is left out).
\<close>

definition render :: "modal \<Rightarrow> json \<Rightarrow> modal option" where
  "render m data = renderTable m data"

text \<open>
  Running one continuation with the outcome of its promise (\<open>Inr\<close> the payload, \<open>Inl\<close>
  the error).
\<close>

definition card_text :: "(string \<rightharpoonup> descriptor) \<Rightarrow> string \<Rightarrow> json \<Rightarrow> string" where
  "card_text cfg type data = (case cfg type of None \<Rightarrow> em_dash | Some c \<Rightarrow> cardValue c data)"

fun run_reaction ::
  "(string \<rightharpoonup> descriptor) \<Rightarrow> reaction \<Rightarrow> jserror + json \<Rightarrow> dashboard \<Rightarrow> dashboard" where
  "run_reaction cfg (CardOwner i type k) (Inr data) d =
     (let d1 = d\<lparr>cache := (cache d)(k \<mapsto> data)\<rparr>;
          d2 = updateCardValue i (card_text cfg type data) d1;
          d3 = d2\<lparr>loadingPromises := (loadingPromises d2)(k := None)\<rparr>
      in setCardLoading i False d3)"
| "run_reaction cfg (CardOwner i type k) (Inl e) d =
     (let d1 = updateCardValue i em_dash d;
          d2 = showToast ''No fue posible obtener el resumen del reporte.'' ''error'' d1;
          d3 = d2\<lparr>loadingPromises := (loadingPromises d2)(k := None)\<rparr>
      in setCardLoading i False d3)"
| "run_reaction cfg (CardWaiter i type) (Inr data) d = updateCardValue i (card_text cfg type data) d"
| "run_reaction cfg (CardWaiter i type) (Inl e) d = updateCardValue i em_dash d"
| "run_reaction cfg (ModalRun type) (Inr data) d =
     (case modals d type of
        None \<Rightarrow> d
      | Some m \<Rightarrow>
          (case render m data of
             Some m' \<Rightarrow> d\<lparr>modals := (modals d)(type \<mapsto> m'\<lparr>loadedOnce := True, loading := False\<rparr>)\<rparr>
           | None \<Rightarrow>
               (let d1 = showToast (''Ocurri'' @ [CHR 0xC3, CHR 0xB3] @ '' un error al generar el reporte.'')
                           ''error'' d
                in d1\<lparr>modals := (modals d1)(type \<mapsto> m\<lparr>loading := False\<rparr>)\<rparr>)))"
| "run_reaction cfg (ModalRun type) (Inl e) d =
     (case modals d type of
        None \<Rightarrow> d
      | Some m \<Rightarrow>
          (let d1 = showToast (''Ocurri'' @ [CHR 0xC3, CHR 0xB3] @ '' un error al generar el reporte.'')
                      ''error'' d
           in d1\<lparr>modals := (modals d1)(type \<mapsto> m\<lparr>loading := False\<rparr>)\<rparr>))"

text \<open>
  Chaining a continuation on a promise. On a settled promise it runs in the next
  microtask, before any other event; on a pending one it waits for the request.
\<close>

definition subscribe ::
  "(string \<rightharpoonup> descriptor) \<Rightarrow> promise \<Rightarrow> reaction \<Rightarrow> dashboard \<Rightarrow> dashboard" where
  "subscribe cfg pr r d =
     (case pr of
        Resolved data \<Rightarrow> run_reaction cfg r (Inr data) d
      | RejectedNow e \<Rightarrow> run_reaction cfg r (Inl e) d
      | OfRequest p \<Rightarrow>
          (if p < length (requests d)
           then (case req_state (requests d ! p) of
                   Pending \<Rightarrow>
                     d\<lparr>requests := (requests d)
                          [p := (requests d ! p)\<lparr>reactions := reactions (requests d ! p) @ [r]\<rparr>]\<rparr>
                 | Fulfilled data \<Rightarrow> run_reaction cfg r (Inr data) d
                 | Rejected e \<Rightarrow> run_reaction cfg r (Inl e) d)
           else d))"

definition loadCardData :: "(string \<rightharpoonup> descriptor) \<Rightarrow> nat \<Rightarrow> string \<Rightarrow> dashboard \<Rightarrow> dashboard" where
  "loadCardData cfg i type d =
     (case cfg type of
        None \<Rightarrow> d
      | Some c \<Rightarrow>
          (let cacheKey = generateCacheKey type \<lparr>filters = None, useGlobalFilters = True\<rparr> (globalFilters d)
           in case cache d cacheKey of
                Some cachedData \<Rightarrow> updateCardValue i (cardValue c cachedData) d
              | None \<Rightarrow>
                  (case loadingPromises d cacheKey of
                     Some pr \<Rightarrow> subscribe cfg pr (CardWaiter i type) d
                   | None \<Rightarrow>
                       (let d1 = setCardLoading i True d;
                            (pr, d2) = fetchReport cfg type \<lparr>filters = None, useGlobalFilters = True\<rparr> d1;
                            d3 = d2\<lparr>loadingPromises := (loadingPromises d2)(cacheKey \<mapsto> pr)\<rparr>
                        in subscribe cfg pr (CardOwner i type cacheKey) d3))))"

text \<open>
  \<^verbatim>\<open>this.cards\<close>, as \<^verbatim>\<open>initCards\<close> fills it: for every configured type the last card
  that triggers it, in the order in which the types first occur.
\<close>

definition cards_by_type :: "(string \<rightharpoonup> descriptor) \<Rightarrow> card list \<Rightarrow> (string \<times> nat) list" where
  "cards_by_type cfg cs =
     foldl (\<lambda>m (i, c). if cfg (trigger c) = None then m else obj_set m (trigger c) i) []
       (zip [0..<length cs] cs)"

definition refreshCards :: "(string \<rightharpoonup> descriptor) \<Rightarrow> dashboard \<Rightarrow> dashboard" where
  "refreshCards cfg d =
     foldl (\<lambda>s (type, i). loadCardData cfg i type s) d (cards_by_type cfg (cardElements d))"

section \<open>The modal\<close>

definition syncWithGlobalFilters :: "globalFilters \<Rightarrow> modal \<Rightarrow> modal" where
  "syncWithGlobalFilters g m =
     (if \<not> supportsRange (config m) then m
      else m\<lparr>filterNodes :=
                map (\<lambda>(key, v).
                       (key,
                        let v1 = (if key = ''start'' \<and> range_start g \<noteq> [] \<and> v = [] then range_start g else v)
                        in if key = ''end'' \<and> range_end g \<noteq> [] \<and> v1 = [] then range_end g else v1))
                  (filterNodes m)\<rparr>)"

definition runReport :: "(string \<rightharpoonup> descriptor) \<Rightarrow> string \<Rightarrow> dashboard \<Rightarrow> dashboard" where
  "runReport cfg type d =
     (case modals d type of
        None \<Rightarrow> d
      | Some m \<Rightarrow>
          (let fs = collectFilters m;
               d1 = d\<lparr>modals := (modals d)(type \<mapsto> m\<lparr>loading := True, lastFilters := fs\<rparr>)\<rparr>;
               (pr, d2) = fetchReport cfg (mtype m) \<lparr>filters = Some fs, useGlobalFilters = False\<rparr> d1
           in subscribe cfg pr (ModalRun type) d2))"

definition modal_open :: "(string \<rightharpoonup> descriptor) \<Rightarrow> string \<Rightarrow> dashboard \<Rightarrow> dashboard" where
  "modal_open cfg type d =
     (case modals d type of
        None \<Rightarrow> d
      | Some m \<Rightarrow>
          (if isOpen m then d
           else (let m1 = m\<lparr>is_visible := True, isOpen := True\<rparr>;
                     m2 = syncWithGlobalFilters (globalFilters d) m1;
                     d1 = d\<lparr>modals := (modals d)(type \<mapsto> m2), activeModal := Some type\<rparr>
                 in if \<not> loadedOnce m2 then runReport cfg type d1 else d1)))"

definition modal_close :: "string \<Rightarrow> dashboard \<Rightarrow> dashboard" where
  "modal_close type d =
     (case modals d type of
        None \<Rightarrow> d
      | Some m \<Rightarrow>
          (if \<not> isOpen m then d
           else d\<lparr>modals := (modals d)(type \<mapsto> m\<lparr>is_visible := False, isOpen := False\<rparr>),
                  activeModal := None\<rparr>))"

section \<open>Settling a request\<close>

text \<open>
  What the network does with one request, on the clock of that request in
  milliseconds: response headers at some time, with status, status text and the outcome
  of \<^verbatim>\<open>response.json()\<close> (\<open>Inl\<close> the message of the parse error); a network failure at
  some time, with the message of the \<^verbatim>\<open>TypeError\<close>; or nothing at all.
\<close>

datatype net =
  Headers nat nat string "string + json"
  | NetworkFailure nat string
  | NoResponse

definition TIMEOUT_MS :: nat where
  "TIMEOUT_MS = 30000"

text \<open>
  The promise of \<^verbatim>\<open>fetch(url, {signal})\<close> against the timer
  \<^verbatim>\<open>setTimeout(() => controller.abort(), 30000)\<close>: whatever the network has not delivered
  before the timer fires is cut off by an \<^verbatim>\<open>AbortError\<close> (whose own message the
  \<^verbatim>\<open>catch\<close> below discards).
\<close>

datatype fetch_outcome = Response nat string "string + json" | FetchRejected jserror

fun fetch_promise :: "net \<Rightarrow> fetch_outcome" where
  "fetch_promise (Headers t status statusText body) =
     (if t < TIMEOUT_MS then Response status statusText body
      else FetchRejected (JSError ''AbortError'' []))"
| "fetch_promise (NetworkFailure t msg) =
     (if t < TIMEOUT_MS then FetchRejected (JSError ''TypeError'' msg)
      else FetchRejected (JSError ''AbortError'' []))"
| "fetch_promise NoResponse = FetchRejected (JSError ''AbortError'' [])"

text \<open>The first \<^verbatim>\<open>then\<close>: \<^verbatim>\<open>response.ok\<close> is a status from 200 to 299.\<close>

fun on_response :: "fetch_outcome \<Rightarrow> jserror + json" where
  "on_response (Response status statusText body) =
     (if \<not> (200 \<le> status \<and> status \<le> 299)
      then Inl (JSError ''Error'' (''HTTP '' @ nat_to_string status @ '': '' @ statusText))
      else (case body of Inl msg \<Rightarrow> Inl (JSError ''SyntaxError'' msg) | Inr data \<Rightarrow> Inr data))"
| "on_response (FetchRejected e) = Inl e"

definition timeout_message :: string where
  "timeout_message = ''La petici'' @ [CHR 0xC3, CHR 0xB3] @ ''n tom'' @ [CHR 0xC3, CHR 0xB3]
                      @ '' demasiado tiempo''"

text \<open>The \<^verbatim>\<open>catch\<close>: an \<^verbatim>\<open>AbortError\<close> is replaced, anything else rethrown.\<close>

fun on_error :: "jserror + json \<Rightarrow> jserror + json" where
  "on_error (Inl (JSError name msg)) =
     (if name = ''AbortError'' then Inl (JSError ''Error'' timeout_message)
      else Inl (JSError name msg))"
| "on_error (Inr data) = Inr data"

definition chain_result :: "net \<Rightarrow> jserror + json" where
  "chain_result n = on_error (on_response (fetch_promise n))"

text \<open>
  The request settles: the second \<^verbatim>\<open>then\<close> stores a payload in the cache, the
  \<^verbatim>\<open>finally\<close> deletes the in-flight entry of the request's key, and the continuations
  chained on the promise run in the order in which they were chained.
\<close>

definition settle :: "(string \<rightharpoonup> descriptor) \<Rightarrow> nat \<Rightarrow> net \<Rightarrow> dashboard \<Rightarrow> dashboard" where
  "settle cfg p n d =
     (if p < length (requests d) \<and> req_state (requests d ! p) = Pending
      then (let rq = requests d ! p;
                res = chain_result n;
                d1 = (case res of Inr data \<Rightarrow> d\<lparr>cache := (cache d)(req_key rq \<mapsto> data)\<rparr> | Inl e \<Rightarrow> d);
                d2 = d1\<lparr>loadingPromises := (loadingPromises d1)(req_key rq := None),
                        requests := (requests d1)
                          [p := rq\<lparr>req_state := (case res of Inr data \<Rightarrow> Fulfilled data
                                                   | Inl e \<Rightarrow> Rejected e)\<rparr>]\<rparr>
            in foldl (\<lambda>s r. run_reaction cfg r res s) d2 (reactions rq))
      else d)"

section \<open>Events of the page\<close>

text \<open>
  A card scrolls into view (the observer's callback), the range is applied with the two
  input values, a card is clicked, a close button or Escape is pressed, the run button
  is clicked, the user edits a filter input, a request settles.
\<close>

datatype event =
  CardVisible nat
  | ApplyRange string string
  | OpenModal string
  | CloseModal string
  | Escape
  | RunReport string
  | EditFilter string nat string
  | Settle nat net

definition cardVisible :: "(string \<rightharpoonup> descriptor) \<Rightarrow> nat \<Rightarrow> dashboard \<Rightarrow> dashboard" where
  "cardVisible cfg i d =
     (if i < length (cardElements d) \<and> observed (cardElements d ! i)
      then (let type = trigger (cardElements d ! i)
            in if type \<noteq> [] \<and> \<not> loaded (cardElements d ! i)
               then (let d1 = loadCardData cfg i type d
                     in d1\<lparr>cardElements := (cardElements d1)
                              [i := (cardElements d1 ! i)\<lparr>loaded := True, observed := False\<rparr>]\<rparr>)
               else d)
      else d)"

definition applyRange :: "(string \<rightharpoonup> descriptor) \<Rightarrow> string \<Rightarrow> string \<Rightarrow> dashboard \<Rightarrow> dashboard" where
  "applyRange cfg s e d =
     (let d1 = d\<lparr>globalFilters := \<lparr>range_start = s, range_end = e\<rparr>\<rparr>;
          d2 = clearCache d1;
          d3 = refreshCards cfg d2
      in showToast ''Rango aplicado correctamente.'' ''success'' d3)"

definition editFilter :: "string \<Rightarrow> nat \<Rightarrow> string \<Rightarrow> dashboard \<Rightarrow> dashboard" where
  "editFilter type j v d =
     (case modals d type of
        None \<Rightarrow> d
      | Some m \<Rightarrow>
          (if j < length (filterNodes m)
           then d\<lparr>modals := (modals d)(type \<mapsto> m\<lparr>filterNodes := (filterNodes m)[j := (fst (filterNodes m ! j), v)]\<rparr>)\<rparr>
           else d))"

fun step :: "(string \<rightharpoonup> descriptor) \<Rightarrow> event \<Rightarrow> dashboard \<Rightarrow> dashboard" where
  "step cfg (CardVisible i) d = cardVisible cfg i d"
| "step cfg (ApplyRange s e) d = applyRange cfg s e d"
| "step cfg (OpenModal type) d = modal_open cfg type d"
| "step cfg (CloseModal type) d = modal_close type d"
| "step cfg Escape d = (case activeModal d of None \<Rightarrow> d | Some type \<Rightarrow> modal_close type d)"
| "step cfg (RunReport type) d = runReport cfg type d"
| "step cfg (EditFilter type j v) d = editFilter type j v d"
| "step cfg (Settle p n) d = settle cfg p n d"

definition run :: "(string \<rightharpoonup> descriptor) \<Rightarrow> event list \<Rightarrow> dashboard \<Rightarrow> dashboard" where
  "run cfg es d = foldl (\<lambda>s e. step cfg e s) d es"

section \<open>A page to run the definitions on\<close>

text \<open>
  The registry with stand-ins for the parameters: every card shows the payload's
  \<^verbatim>\<open>total_cost_display\<close> when it is a string, and a row renders as an empty table row
  unless it is \<^verbatim>\<open>null\<close>.
\<close>

definition sample_cardValue :: "string \<Rightarrow> json \<Rightarrow> string" where
  "sample_cardValue type data =
     (case data of
        JObject ms \<Rightarrow> (case map_of ms ''total_cost_display'' of Some (JString s) \<Rightarrow> s | _ \<Rightarrow> em_dash)
      | _ \<Rightarrow> em_dash)"

definition sample_renderRow :: "string \<Rightarrow> json \<Rightarrow> string option" where
  "sample_renderRow type row = (case row of JNull \<Rightarrow> None | _ \<Rightarrow> Some ''<tr></tr>'')"

definition sample_config :: "string \<rightharpoonup> descriptor" where
  "sample_config = map_of (REPORT_CONFIG sample_cardValue sample_renderRow)"

text \<open>
  A page with two cards and the modal of the total-sales report, as the markup declares
  them: two date inputs, a table with eleven header cells, an empty-state node.
\<close>

definition sample_card :: "string \<Rightarrow> card" where
  "sample_card type =
     \<lparr>trigger = type, loaded = False, observed = True, card_loading = False, summary_value = Some []\<rparr>"

definition sample_modal :: "string \<Rightarrow> modal" where
  "sample_modal type =
     \<lparr>mtype = type,
      config = (case sample_config type of Some c \<Rightarrow> c
                | None \<Rightarrow> \<lparr>endpoint = [], supportsRange = False, paramMap = None, defaultFilters = None,
                            cardValue = sample_cardValue type, rowsExtractor = None,
                            renderRow = sample_renderRow type, emptyMessage = None\<rparr>),
      isOpen = False, loadedOnce = False, lastFilters = [], is_visible = False, loading = False,
      filterNodes = [(''start'', []), (''end'', [])],
      tableBody = Some [], headerCells = Some 11, emptyHidden = Some True\<rparr>"

definition sample_page :: dashboard where
  "sample_page =
     init_dashboard [sample_card ''inventory-cost'', sample_card ''total-sales'']
       [''total-sales'' \<mapsto> sample_modal ''total-sales'']"

definition sample_modal_config :: "string \<Rightarrow> descriptor" where
  "sample_modal_config type = config (sample_modal type)"

section \<open>Well-formed states\<close>

text \<open>
  What holds of the requests and the in-flight registry in every state the page reaches:
  the cache key a card continuation captured is the key of the request it waits on, and
  the registry maps a key only to the promise of a pending request made for that key.
\<close>

definition wf_dashboard :: "dashboard \<Rightarrow> bool" where
  "wf_dashboard d \<longleftrightarrow>
     (\<forall>p i t k. p < length (requests d) \<and> CardOwner i t k \<in> set (reactions (requests d ! p))
        \<longrightarrow> k = req_key (requests d ! p))
     \<and> (\<forall>k pr. loadingPromises d k = Some pr \<longrightarrow>
           (\<exists>p. pr = OfRequest p \<and> p < length (requests d) \<and> req_key (requests d ! p) = k
                \<and> req_state (requests d ! p) = Pending))"

text \<open>
  The second state keeps the global range, the cache and every in-flight entry of the
  first.
\<close>

definition preserves :: "dashboard \<Rightarrow> dashboard \<Rightarrow> bool" where
  "preserves d d' \<longleftrightarrow>
     globalFilters d' = globalFilters d \<and> cache d' = cache d
     \<and> (\<forall>k pr. loadingPromises d k = Some pr \<longrightarrow> loadingPromises d' k = Some pr)"

section \<open>Traces\<close>

text \<open>
  \<^verbatim>\<open>clearCache\<close> is called from the range-apply handler only. An event settles a key when
  it is the outcome of a pending request made for that key. A trace is quiet for a key
  when none of its events clears the cache or settles the key.
\<close>

fun clears :: "event \<Rightarrow> bool" where
  "clears (ApplyRange s e) = True"
| "clears _ = False"

fun settles_key :: "string \<Rightarrow> dashboard \<Rightarrow> event \<Rightarrow> bool" where
  "settles_key K d (Settle p n) =
     (p < length (requests d) \<and> req_state (requests d ! p) = Pending \<and> req_key (requests d ! p) = K)"
| "settles_key K d _ = False"

fun quiet :: "(string \<rightharpoonup> descriptor) \<Rightarrow> string \<Rightarrow> dashboard \<Rightarrow> event list \<Rightarrow> bool" where
  "quiet cfg K d [] = True"
| "quiet cfg K d (e # es) = (\<not> clears e \<and> \<not> settles_key K d e \<and> quiet cfg K (step cfg e d) es)"

text \<open>The requests of the second state are those of the first and then some, none for the key.\<close>

definition no_new_request :: "string \<Rightarrow> dashboard \<Rightarrow> dashboard \<Rightarrow> bool" where
  "no_new_request K d d' \<longleftrightarrow>
     (\<exists>ks. map req_key (requests d') = map req_key (requests d) @ ks \<and> K \<notin> set ks)"

text \<open>Every modal that has loaded once is still there and still has.\<close>

definition keeps_loaded :: "dashboard \<Rightarrow> dashboard \<Rightarrow> bool" where
  "keeps_loaded d d' \<longleftrightarrow>
     (\<forall>t m. modals d t = Some m \<and> loadedOnce m \<longrightarrow> (\<exists>m'. modals d' t = Some m' \<and> loadedOnce m'))"


section \<open>Objects\<close>

lemma set_obj_set: "set (obj_set ps k v) \<subseteq> insert (k, v) (set ps)"
  by (induction ps k v rule: obj_set.induct) auto


lemma keys_obj_set: "fst ` set (obj_set ps k v) = insert k (fst ` set ps)"
  by (induction ps k v rule: obj_set.induct) auto

lemma distinct_obj_set: "distinct (map fst ps) \<Longrightarrow> distinct (map fst (obj_set ps k v))"
proof (induction ps)
  case Nil
  then show ?case by simp
next
  case (Cons p ps)
  obtain k' v' where p: "p = (k', v')" by (cases p)
  have "fst ` set (obj_set ps k v) = insert k (fst ` set ps)" by (rule keys_obj_set)
  with Cons p show ?case by (auto simp: image_iff)
qed

lemma distinct_obj_assign:
  "distinct (map fst t) \<Longrightarrow> distinct (map fst (obj_assign t s))"
  unfolding obj_assign_def
  by (induction s arbitrary: t) (auto simp: distinct_obj_set)

lemma distinct_fetchReport_filters: "distinct (map fst (fetchReport_filters c opts g))"
  unfolding fetchReport_filters_def Let_def
  by (auto simp: distinct_obj_assign distinct_obj_set split: option.splits)

lemma append_params_iff:
  "(n, s) \<in> set (append_params fs) \<longleftrightarrow> (\<exists>v. (n, v) \<in> set fs \<and> truthy v \<and> s = toString v)"
  unfolding append_params_def by (induction fs) auto

lemma truthy_cases: "truthy v \<longleftrightarrow> (\<exists>s. v = Str s \<and> s \<noteq> [])"
  by (cases v) auto

lemma set_params_fold:
  assumes "(n, s) \<in> set (foldl (\<lambda>ps (key, v). if v = Null \<or> v = Undefined \<or> v = Str [] then ps
                                   else obj_set ps (mapped_or_self c key) (toString v)) acc fs)"
  shows "(n, s) \<in> set acc \<or> (\<exists>k. (k, Str s) \<in> set fs \<and> s \<noteq> [] \<and> mapped_or_self c k = n)"
  using assms
proof (induction fs arbitrary: acc)
  case Nil
  then show ?case by simp
next
  case (Cons p fs)
  obtain k v where p: "p = (k, v)" by (cases p)
  show ?case
  proof (cases "v = Null \<or> v = Undefined \<or> v = Str []")
    case True
    with Cons.prems p have "(n, s) \<in> set (foldl (\<lambda>ps (key, v). if v = Null \<or> v = Undefined \<or> v = Str [] then ps
                                   else obj_set ps (mapped_or_self c key) (toString v)) acc fs)"
      by simp
    from Cons.IH[OF this] show ?thesis by auto
  next
    case False
    then obtain t where v: "v = Str t" "t \<noteq> []" by (cases v) auto
    from Cons.prems p False
    have "(n, s) \<in> set (foldl (\<lambda>ps (key, v). if v = Null \<or> v = Undefined \<or> v = Str [] then ps
                                   else obj_set ps (mapped_or_self c key) (toString v))
                          (obj_set acc (mapped_or_self c k) (toString v)) fs)"
      by simp
    from Cons.IH[OF this]
    consider "(n, s) \<in> set (obj_set acc (mapped_or_self c k) (toString v))"
      | "\<exists>k. (k, Str s) \<in> set fs \<and> s \<noteq> [] \<and> mapped_or_self c k = n" by blast
    then show ?thesis
    proof cases
      case 1
      with set_obj_set[of acc "mapped_or_self c k" "toString v"]
      have "(n, s) = (mapped_or_self c k, toString v) \<or> (n, s) \<in> set acc" by auto
      with v p show ?thesis by auto
    next
      case 2
      then show ?thesis by auto
    qed
  qed
qed

lemma distinct_static_fetchReport_filters: "distinct (map fst (static_fetchReport_filters c opts g))"
  unfolding static_fetchReport_filters_def Let_def
  by (auto simp: distinct_obj_assign distinct_obj_set split: option.splits)

section \<open>The cache key\<close>

lemma stringify_drops_undefined:
  "concat (map stringify_member (filter (\<lambda>(k, v). v \<noteq> Undefined) fs)) = concat (map stringify_member fs)"
proof (induction fs)
  case Nil
  then show ?case by simp
next
  case (Cons p fs)
  obtain k v where "p = (k, v)" by (cases p)
  with Cons show ?case by (cases v) auto
qed

text \<open>
  C4, as the code has it. \<^verbatim>\<open>JSON.stringify\<close> writes the properties in enumeration order and
  sorts nothing: two filter objects whose defined properties agree, in the same order,
  get the same cache key.
\<close>

theorem generateCacheKey_same_order:
  assumes "filter (\<lambda>(k, v). v \<noteq> Undefined) f1 = filter (\<lambda>(k, v). v \<noteq> Undefined) f2"
  shows "generateCacheKey type \<lparr>filters = Some f1, useGlobalFilters = u\<rparr> g
       = generateCacheKey type \<lparr>filters = Some f2, useGlobalFilters = u\<rparr> g"
proof -
  have "concat (map stringify_member f1) = concat (map stringify_member f2)"
    using assms stringify_drops_undefined[of f1] stringify_drops_undefined[of f2] by simp
  then show ?thesis
    by (simp add: generateCacheKey_def JSON_stringify_def)
qed

theorem generateCacheKey_same_order_witness:
  "filter (\<lambda>(k, v). v \<noteq> Undefined) [(''start'', Str ''2024-01-01''), (''search'', Undefined), (''end'', Str '''')]
     = filter (\<lambda>(k, v). v \<noteq> Undefined) [(''start'', Str ''2024-01-01''), (''end'', Str '''')]
   \<and> generateCacheKey ''total-sales''
        \<lparr>filters = Some [(''start'', Str ''2024-01-01''), (''search'', Undefined), (''end'', Str '''')],
         useGlobalFilters = False\<rparr> \<lparr>range_start = [], range_end = []\<rparr>
     = generateCacheKey ''total-sales''
        \<lparr>filters = Some [(''start'', Str ''2024-01-01''), (''end'', Str '''')],
         useGlobalFilters = False\<rparr> \<lparr>range_start = [], range_end = []\<rparr>"
  using generateCacheKey_same_order
    [of "[(''start'', Str ''2024-01-01''), (''search'', Undefined), (''end'', Str '''')]"
        "[(''start'', Str ''2024-01-01''), (''end'', Str '''')]"
        "''total-sales''" False "\<lparr>range_start = [], range_end = []\<rparr>"]
  by simp

text \<open>
  C4, as stated, fails: the same two key-value pairs inserted in the other order give
  another cache key.
\<close>

theorem generateCacheKey_insertion_order_counterexample:
  "set [(''start'', Str ''2024-01-01''), (''end'', Str ''2024-01-31'')]
     = set [(''end'', Str ''2024-01-31''), (''start'', Str ''2024-01-01'')]
   \<and> generateCacheKey ''total-sales''
        \<lparr>filters = Some [(''start'', Str ''2024-01-01''), (''end'', Str ''2024-01-31'')],
         useGlobalFilters = False\<rparr> \<lparr>range_start = [], range_end = []\<rparr>
     \<noteq> generateCacheKey ''total-sales''
        \<lparr>filters = Some [(''end'', Str ''2024-01-31''), (''start'', Str ''2024-01-01'')],
         useGlobalFilters = False\<rparr> \<lparr>range_start = [], range_end = []\<rparr>"
  by (auto simp: generateCacheKey_def JSON_stringify_def quoteJSONString_def quoteJSONChar_def)



section \<open>The query string\<close>

text \<open>
  C5. In both variants of \<^verbatim>\<open>fetchReport\<close>, a filter whose merged value is the empty
  string, \<^verbatim>\<open>null\<close> or \<^verbatim>\<open>undefined\<close> is not serialized: in the caching variant its key is
  no parameter name, and every parameter carries the non-empty value its key has in the
  merged filters; in the eager variant every parameter carries the non-empty value of a
  merged key that maps to its name.
\<close>

theorem empty_filter_values_never_serialized:
  "(\<forall>k x. obj_get (fetchReport_filters c opts g) k = Some x \<and> (x = Str [] \<or> x = Null \<or> x = Undefined)
          \<longrightarrow> k \<notin> fst ` set (fetchReport_params c opts g))
   \<and> (\<forall>n s. (n, s) \<in> set (fetchReport_params c opts g)
          \<longrightarrow> s \<noteq> [] \<and> obj_get (fetchReport_filters c opts g) n = Some (Str s))
   \<and> (\<forall>n s. (n, s) \<in> set (static_fetchReport_params c opts g)
          \<longrightarrow> s \<noteq> [] \<and> (\<exists>k. obj_get (static_fetchReport_filters c opts g) k = Some (Str s)
                              \<and> mapped_or_self c k = n))"
proof (intro conjI allI impI)
  fix n s
  assume "(n, s) \<in> set (fetchReport_params c opts g)"
  then obtain v where v: "(n, v) \<in> set (fetchReport_filters c opts g)" "truthy v" "s = toString v"
    unfolding fetchReport_params_def append_params_iff by blast
  then obtain t where t: "v = Str t" "t \<noteq> []" using truthy_cases by blast
  with v show "s \<noteq> []" by simp
  from v t show "obj_get (fetchReport_filters c opts g) n = Some (Str s)"
    unfolding obj_get_def using distinct_fetchReport_filters[of c opts g] by simp
next
  fix k x
  assume a: "obj_get (fetchReport_filters c opts g) k = Some x \<and> (x = Str [] \<or> x = Null \<or> x = Undefined)"
  show "k \<notin> fst ` set (fetchReport_params c opts g)"
  proof
    assume "k \<in> fst ` set (fetchReport_params c opts g)"
    then obtain s where "(k, s) \<in> set (fetchReport_params c opts g)" by auto
    then obtain v where v: "(k, v) \<in> set (fetchReport_filters c opts g)" "truthy v"
      unfolding fetchReport_params_def append_params_iff by blast
    then have "obj_get (fetchReport_filters c opts g) k = Some v"
      unfolding obj_get_def using distinct_fetchReport_filters[of c opts g] by simp
    with a v show False by auto
  qed
next
  fix n s
  assume "(n, s) \<in> set (static_fetchReport_params c opts g)"
  then have "(n, s) \<in> set [] \<or> (\<exists>k. (k, Str s) \<in> set (static_fetchReport_filters c opts g) \<and> s \<noteq> []
                \<and> mapped_or_self c k = n)"
    unfolding static_fetchReport_params_def set_params_def by (rule set_params_fold)
  then obtain k where k: "(k, Str s) \<in> set (static_fetchReport_filters c opts g)" "s \<noteq> []"
      "mapped_or_self c k = n" by auto
  then have "obj_get (static_fetchReport_filters c opts g) k = Some (Str s)"
    unfolding obj_get_def using distinct_static_fetchReport_filters[of c opts g] by simp
  with k show "s \<noteq> []" and "\<exists>k. obj_get (static_fetchReport_filters c opts g) k = Some (Str s) \<and> mapped_or_self c k = n"
    by auto
qed

theorem empty_filter_values_never_serialized_witness:
  "obj_get (fetchReport_filters (sample_modal_config ''cash-status'')
              \<lparr>filters = Some [(''start'', Str []), (''end'', Str ''2024-01-31''), (''page_size'', Null)],
               useGlobalFilters = False\<rparr> \<lparr>range_start = ''2024-01-01'', range_end = []\<rparr>) ''start''
     = Some (Str [])
   \<and> ''start'' \<notin> fst ` set (fetchReport_params (sample_modal_config ''cash-status'')
              \<lparr>filters = Some [(''start'', Str []), (''end'', Str ''2024-01-31''), (''page_size'', Null)],
               useGlobalFilters = False\<rparr> \<lparr>range_start = ''2024-01-01'', range_end = []\<rparr>)
   \<and> (''end'', ''2024-01-31'') \<in> set (fetchReport_params (sample_modal_config ''cash-status'')
              \<lparr>filters = Some [(''start'', Str []), (''end'', Str ''2024-01-31''), (''page_size'', Null)],
               useGlobalFilters = False\<rparr> \<lparr>range_start = ''2024-01-01'', range_end = []\<rparr>)
   \<and> obj_get (fetchReport_filters (sample_modal_config ''cash-status'')
              \<lparr>filters = Some [(''start'', Str []), (''end'', Str ''2024-01-31''), (''page_size'', Null)],
               useGlobalFilters = False\<rparr> \<lparr>range_start = ''2024-01-01'', range_end = []\<rparr>) ''end''
     = Some (Str ''2024-01-31'')
   \<and> (''fecha_fin'', ''2024-01-31'') \<in> set (static_fetchReport_params (sample_modal_config ''cash-status'')
              \<lparr>filters = Some [(''start'', Str []), (''end'', Str ''2024-01-31''), (''page_size'', Null)],
               useGlobalFilters = False\<rparr> \<lparr>range_start = ''2024-01-01'', range_end = []\<rparr>)"
proof -
  let ?c = "sample_modal_config ''cash-status''"
  let ?o = "\<lparr>filters = Some [(''start'', Str []), (''end'', Str ''2024-01-31''), (''page_size'', Null)],
               useGlobalFilters = False\<rparr>"
  let ?g = "\<lparr>range_start = ''2024-01-01'', range_end = []\<rparr>"
  have a: "obj_get (fetchReport_filters ?c ?o ?g) ''start'' = Some (Str [])" by code_simp
  have b: "(''end'', ''2024-01-31'') \<in> set (fetchReport_params ?c ?o ?g)" by code_simp
  have c: "(''fecha_fin'', ''2024-01-31'') \<in> set (static_fetchReport_params ?c ?o ?g)" by code_simp
  from empty_filter_values_never_serialized[of ?c ?o ?g] a b c show ?thesis by blast
qed

text \<open>
  C1, on the caching variant. An explicit filter is appended under its own key: the
  search box of the product-sales modal goes out as \<^verbatim>\<open>search\<close>, not as the \<^verbatim>\<open>q\<close> of
  the descriptor's \<^verbatim>\<open>paramMap\<close>. The global range in the same function, and every
  key in the eager variant, do go through \<^verbatim>\<open>paramMap\<close>.
\<close>

theorem explicit_filter_keys_not_mapped:
  "fetchReport_url (sample_modal_config ''product-sales'')
       \<lparr>filters = Some [(''search'', Str ''iphone'')], useGlobalFilters = False\<rparr>
       \<lparr>range_start = [], range_end = []\<rparr>
     = ''/app/reportes/ventas-producto/?search=iphone''
   \<and> static_fetchReport_url (sample_modal_config ''product-sales'')
       \<lparr>filters = Some [(''search'', Str ''iphone'')], useGlobalFilters = False\<rparr>
       \<lparr>range_start = [], range_end = []\<rparr>
     = ''/app/reportes/ventas-producto/?q=iphone''
   \<and> fetchReport_url (sample_modal_config ''product-sales'')
       \<lparr>filters = None, useGlobalFilters = True\<rparr>
       \<lparr>range_start = ''2024-01-01'', range_end = []\<rparr>
     = ''/app/reportes/ventas-producto/?fecha_inicio=2024-01-01''"
  by code_simp

section \<open>The empty state of the table\<close>


lemma set_replace_all: "set (replace_all c r s) \<subseteq> (set s - {c}) \<union> set r"
  unfolding replace_all_def by (induction s) auto

lemma escapeHtml_no_markup: "CHR ''<'' \<notin> set (escapeHtml (Str s))"
proof -
  define s1 where "s1 = replace_all CHR ''&'' ''&amp;'' s"
  define s2 where "s2 = replace_all CHR ''<'' ''&lt;'' s1"
  define s3 where "s3 = replace_all CHR ''>'' ''&gt;'' s2"
  define s4 where "s4 = replace_all (CHR 0x22) ''&quot;'' s3"
  define s5 where "s5 = replace_all (CHR 0x27) ''&#39;'' s4"
  have "CHR ''<'' \<notin> set s2" using set_replace_all[of "CHR ''<''" "''&lt;''" s1] unfolding s2_def by auto
  then have "CHR ''<'' \<notin> set s3" using set_replace_all[of "CHR ''>''" "''&gt;''" s2] unfolding s3_def by auto
  then have "CHR ''<'' \<notin> set s4" using set_replace_all[of "CHR 0x22" "''&quot;''" s3] unfolding s4_def by auto
  then have "CHR ''<'' \<notin> set s5" using set_replace_all[of "CHR 0x27" "''&#39;''" s4] unfolding s5_def by auto
  then show ?thesis by (simp add: s5_def s4_def s3_def s2_def s1_def)
qed

lemma digit_char_digit: "digit_char d \<in> set ''0123456789''"
  unfolding digit_char_def by (rule nth_mem) simp

lemma nat_to_string_digits: "set (nat_to_string n) \<subseteq> set ''0123456789''"
proof (induction n rule: nat_to_string.induct)
  case (1 n)
  show ?case
  proof (cases "n < 10")
    case True
    then show ?thesis using digit_char_digit[of n] by (subst nat_to_string.simps) simp
  next
    case False
    from digit_char_digit[of "n mod 10"] 1[OF False] False show ?thesis
      by (subst nat_to_string.simps) auto
  qed
qed

lemma count_lt_empty_state_row:
  assumes "CHR ''<'' \<notin> set text"
  shows "length (filter (\<lambda>c. c = CHR ''<'') (empty_state_row n text)) = 4"
proof -
  have a: "filter (\<lambda>c. c = CHR ''<'') text = []" using assms by (auto simp: filter_empty_conv)
  have "CHR ''<'' \<notin> set (nat_to_string n)" using nat_to_string_digits[of n] by auto
  then have b: "filter (\<lambda>c. c = CHR ''<'') (nat_to_string n) = []" by (auto simp: filter_empty_conv)
  show ?thesis by (simp add: empty_state_row_def spaces_def a b)
qed

lemma spaces_literals:
  "spaces 20 = ''                    ''"
  "spaces 24 = ''                        ''"
  "spaces 16 = ''                ''"
  by (simp_all add: spaces_def numeral_eq_Suc)

text \<open>
  C9. When the modal has a table body and the descriptor's extractor yields no row,
  \<^verbatim>\<open>renderTable\<close> writes exactly the markup below into the table body: one \<^verbatim>\<open>tr\<close>
  with one \<^verbatim>\<open>td\<close> (four tags in all, the escaped message adding none), whose
  \<^verbatim>\<open>colspan\<close> attribute is the decimal numeral of the number of header cells, or of 1
  without a table or without header cells, and whose content is the escaped
  \<^verbatim>\<open>emptyMessage\<close> of the descriptor.
\<close>

theorem renderTable_empty_state:
  assumes "tableBody m = Some old"
    and "(case rowsExtractor (config m) of Some ex \<Rightarrow> ex data | None \<Rightarrow> []) = []"
    and "emptyMessage (config m) = Some msg" and "msg \<noteq> []"
  shows "\<exists>m'. renderTable m data = Some m'
           \<and> tableBody m' =
               Some ([CHR 0x0A] @ ''                    <tr>'' @
                     [CHR 0x0A] @ ''                        <td colspan='' @ [CHR 0x22]
                       @ nat_to_string (case headerCells m of None \<Rightarrow> 1
                                        | Some h \<Rightarrow> if h = 0 then 1 else h)
                       @ [CHR 0x22] @ '' class='' @ [CHR 0x22] @ ''report-empty-state'' @ [CHR 0x22]
                       @ ''>'' @ escapeHtml (Str msg) @ ''</td>'' @
                     [CHR 0x0A] @ ''                    </tr>'' @
                     [CHR 0x0A] @ ''                '')
           \<and> getTableColumnCount m = (case headerCells m of None \<Rightarrow> 1 | Some h \<Rightarrow> if h = 0 then 1 else h)
           \<and> length (filter (\<lambda>c. c = CHR ''<'') (the (tableBody m'))) = 4
           \<and> CHR ''<'' \<notin> set (escapeHtml (Str msg))
           \<and> emptyHidden m' = map_option (\<lambda>_. False) (emptyHidden m)"
proof -
  let ?n = "case headerCells m of None \<Rightarrow> 1 | Some h \<Rightarrow> if h = 0 then 1 else h"
  let ?m' = "m\<lparr>tableBody := Some (empty_state_row (getTableColumnCount m) (escapeHtml (Str msg))),
               emptyHidden := map_option (\<lambda>_. False) (emptyHidden m)\<rparr>"
  have r: "renderTable m data = Some ?m'"
    using assms by (simp add: renderTable_def Let_def)
  have n: "getTableColumnCount m = ?n" by (simp add: getTableColumnCount_def)
  have t: "empty_state_row ?n (escapeHtml (Str msg)) =
               [CHR 0x0A] @ ''                    <tr>'' @
               [CHR 0x0A] @ ''                        <td colspan='' @ [CHR 0x22]
                 @ nat_to_string ?n
                 @ [CHR 0x22] @ '' class='' @ [CHR 0x22] @ ''report-empty-state'' @ [CHR 0x22]
                 @ ''>'' @ escapeHtml (Str msg) @ ''</td>'' @
               [CHR 0x0A] @ ''                    </tr>'' @
               [CHR 0x0A] @ ''                ''"
    by (simp add: empty_state_row_def spaces_literals)
  have c: "length (filter (\<lambda>c. c = CHR ''<'') (empty_state_row ?n (escapeHtml (Str msg)))) = 4"
    by (rule count_lt_empty_state_row[OF escapeHtml_no_markup])
  have b: "tableBody ?m' = Some (empty_state_row ?n (escapeHtml (Str msg)))" by (simp add: n)
  have h: "emptyHidden ?m' = map_option (\<lambda>_. False) (emptyHidden m)" by simp
  show ?thesis
    apply (rule exI[of _ ?m'])
    using r n b c h escapeHtml_no_markup[of msg] unfolding t by simp
qed

theorem renderTable_empty_state_witness:
  "tableBody (sample_modal ''total-sales'') = Some []
   \<and> headerCells (sample_modal ''total-sales'') = Some 11
   \<and> (case rowsExtractor (config (sample_modal ''total-sales'')) of
         Some ex \<Rightarrow> ex (JObject [(''total_sales_display'', JString ''RD$1,000.00''), (''rows'', JArray [])])
       | None \<Rightarrow> []) = []
   \<and> emptyMessage (config (sample_modal ''total-sales''))
       = Some ''No se encontraron ventas para los filtros seleccionados.''
   \<and> (\<exists>m'. renderTable (sample_modal ''total-sales'')
               (JObject [(''total_sales_display'', JString ''RD$1,000.00''), (''rows'', JArray [])]) = Some m'
           \<and> tableBody m' =
               Some ([CHR 0x0A] @ ''                    <tr>'' @
                     [CHR 0x0A] @ ''                        <td colspan='' @ [CHR 0x22] @ ''11'' @ [CHR 0x22]
                       @ '' class='' @ [CHR 0x22] @ ''report-empty-state'' @ [CHR 0x22]
                       @ ''>No se encontraron ventas para los filtros seleccionados.</td>'' @
                     [CHR 0x0A] @ ''                    </tr>'' @
                     [CHR 0x0A] @ ''                ''))
   \<and> (\<exists>m'. renderTable
               ((sample_modal ''total-sales'')
                  \<lparr>config := (sample_modal_config ''total-sales'')\<lparr>emptyMessage := Some ''<b>A & B</b>''\<rparr>,
                   headerCells := None\<rparr>)
               (JObject [(''rows'', JString ''none'')]) = Some m'
           \<and> tableBody m' =
               Some ([CHR 0x0A] @ ''                    <tr>'' @
                     [CHR 0x0A] @ ''                        <td colspan='' @ [CHR 0x22] @ ''1'' @ [CHR 0x22]
                       @ '' class='' @ [CHR 0x22] @ ''report-empty-state'' @ [CHR 0x22]
                       @ ''>&lt;b&gt;A &amp; B&lt;/b&gt;</td>'' @
                     [CHR 0x0A] @ ''                    </tr>'' @
                     [CHR 0x0A] @ ''                ''))"
proof -
  let ?m = "sample_modal ''total-sales''"
  let ?p = "JObject [(''total_sales_display'', JString ''RD$1,000.00''), (''rows'', JArray [])]"
  let ?msg = "''No se encontraron ventas para los filtros seleccionados.''"
  let ?m2 = "(sample_modal ''total-sales'')
                  \<lparr>config := (sample_modal_config ''total-sales'')\<lparr>emptyMessage := Some ''<b>A & B</b>''\<rparr>,
                   headerCells := None\<rparr>"
  let ?p2 = "JObject [(''rows'', JString ''none'')]"
  have a: "tableBody ?m = Some []" by code_simp
  have h: "headerCells ?m = Some 11" by code_simp
  have b: "(case rowsExtractor (config ?m) of Some ex \<Rightarrow> ex ?p | None \<Rightarrow> []) = []" by code_simp
  have c: "emptyMessage (config ?m) = Some ?msg" by code_simp
  have d: "?msg \<noteq> []" by simp
  have e: "nat_to_string 11 = ''11''" by code_simp
  have f: "escapeHtml (Str ?msg) = ?msg" by code_simp
  have a2: "tableBody ?m2 = Some []" by code_simp
  have h2: "headerCells ?m2 = None" by simp
  have b2: "(case rowsExtractor (config ?m2) of Some ex \<Rightarrow> ex ?p2 | None \<Rightarrow> []) = []" by code_simp
  have c2: "emptyMessage (config ?m2) = Some ''<b>A & B</b>''" by simp
  have d2: "''<b>A & B</b>'' \<noteq> []" by simp
  have e2: "nat_to_string 1 = ''1''" by code_simp
  have f2: "escapeHtml (Str ''<b>A & B</b>'') = ''&lt;b&gt;A &amp; B&lt;/b&gt;''" by code_simp
  from renderTable_empty_state[OF a b c d] h e f
  have r1: "\<exists>m'. renderTable ?m ?p = Some m'
           \<and> tableBody m' =
               Some ([CHR 0x0A] @ ''                    <tr>'' @
                     [CHR 0x0A] @ ''                        <td colspan='' @ [CHR 0x22] @ ''11'' @ [CHR 0x22]
                       @ '' class='' @ [CHR 0x22] @ ''report-empty-state'' @ [CHR 0x22]
                       @ ''>No se encontraron ventas para los filtros seleccionados.</td>'' @
                     [CHR 0x0A] @ ''                    </tr>'' @
                     [CHR 0x0A] @ ''                '')"
    by auto
  from renderTable_empty_state[OF a2 b2 c2 d2] h2 e2 f2
  have r2: "\<exists>m'. renderTable ?m2 ?p2 = Some m'
           \<and> tableBody m' =
               Some ([CHR 0x0A] @ ''                    <tr>'' @
                     [CHR 0x0A] @ ''                        <td colspan='' @ [CHR 0x22] @ ''1'' @ [CHR 0x22]
                       @ '' class='' @ [CHR 0x22] @ ''report-empty-state'' @ [CHR 0x22]
                       @ ''>&lt;b&gt;A &amp; B&lt;/b&gt;</td>'' @
                     [CHR 0x0A] @ ''                    </tr>'' @
                     [CHR 0x0A] @ ''                '')"
    by auto
  from a h b c r1 r2 show ?thesis by blast
qed

section \<open>Requests and their continuations\<close>


lemma requests_setCardLoading [simp]: "requests (setCardLoading i b d) = requests d"
  and cache_setCardLoading [simp]: "cache (setCardLoading i b d) = cache d"
  and loadingPromises_setCardLoading [simp]: "loadingPromises (setCardLoading i b d) = loadingPromises d"
  and globalFilters_setCardLoading [simp]: "globalFilters (setCardLoading i b d) = globalFilters d"
  and modals_setCardLoading [simp]: "modals (setCardLoading i b d) = modals d"
  by (simp_all add: setCardLoading_def Let_def)

lemma requests_updateCardValue [simp]: "requests (updateCardValue i v d) = requests d"
  and cache_updateCardValue [simp]: "cache (updateCardValue i v d) = cache d"
  and loadingPromises_updateCardValue [simp]: "loadingPromises (updateCardValue i v d) = loadingPromises d"
  and globalFilters_updateCardValue [simp]: "globalFilters (updateCardValue i v d) = globalFilters d"
  and modals_updateCardValue [simp]: "modals (updateCardValue i v d) = modals d"
  by (simp_all add: updateCardValue_def Let_def)

lemma requests_showToast [simp]: "requests (showToast a b d) = requests d"
  and cache_showToast [simp]: "cache (showToast a b d) = cache d"
  and loadingPromises_showToast [simp]: "loadingPromises (showToast a b d) = loadingPromises d"
  and globalFilters_showToast [simp]: "globalFilters (showToast a b d) = globalFilters d"
  and modals_showToast [simp]: "modals (showToast a b d) = modals d"
  by (simp_all add: showToast_def)

lemma requests_run_reaction [simp]: "requests (run_reaction cfg r res d) = requests d"
  by (cases "(cfg, r, res, d)" rule: run_reaction.cases) (auto simp: Let_def split: option.splits)

lemma globalFilters_run_reaction [simp]: "globalFilters (run_reaction cfg r res d) = globalFilters d"
  by (cases "(cfg, r, res, d)" rule: run_reaction.cases) (auto simp: Let_def split: option.splits)

lemma requests_reactions [simp]: "requests (foldl (\<lambda>s r. run_reaction cfg r res s) d rs) = requests d"
  by (induction rs arbitrary: d) auto

lemma globalFilters_reactions [simp]:
  "globalFilters (foldl (\<lambda>s r. run_reaction cfg r res s) d rs) = globalFilters d"
  by (induction rs arbitrary: d) auto

lemma requests_settle:
  "p < length (requests d) \<Longrightarrow> req_state (requests d ! p) = Pending \<Longrightarrow>
   requests (settle cfg p n d) =
     (requests d)[p := (requests d ! p)\<lparr>req_state := (case chain_result n of Inr data \<Rightarrow> Fulfilled data
                                                         | Inl e \<Rightarrow> Rejected e)\<rparr>]"
  by (auto simp: settle_def Let_def split: sum.splits)

lemma chain_result_timeout:
  "(case n of Headers t status statusText body \<Rightarrow> TIMEOUT_MS < t | NetworkFailure t msg \<Rightarrow> TIMEOUT_MS < t
            | NoResponse \<Rightarrow> True)
   \<Longrightarrow> chain_result n = Inl (JSError ''Error'' timeout_message)"
  by (cases n) (auto simp: chain_result_def)

lemma chain_result_http_failure:
  "t < TIMEOUT_MS \<Longrightarrow> \<not> (200 \<le> status \<and> status \<le> 299) \<Longrightarrow>
   chain_result (Headers t status statusText body)
     = Inl (JSError ''Error'' (''HTTP '' @ nat_to_string status @ '': '' @ statusText))"
  by (auto simp: chain_result_def)

text \<open>
  C6. A pending request that is still without response headers (and without a network
  failure) when the timer of 30000 ms fires rejects with an \<^verbatim>\<open>Error\<close> whose message
  is \<^verbatim>\<open>La peticion tomo demasiado tiempo\<close>, written below byte for byte with the two
  accented letters of the source as their UTF-8 bytes C3 B3; a response with a status
  outside 200-299 rejects with \<^verbatim>\<open>HTTP <status>: <statusText>\<close>, which is never that
  message.
\<close>

theorem timeout_error_is_distinct:
  assumes "p < length (requests d)" and "req_state (requests d ! p) = Pending"
    and "case n of Headers t status statusText body \<Rightarrow> TIMEOUT_MS < t
                 | NetworkFailure t msg \<Rightarrow> TIMEOUT_MS < t | NoResponse \<Rightarrow> True"
  shows "TIMEOUT_MS = 30000
       \<and> req_state (requests (settle cfg p n d) ! p) = Rejected (JSError ''Error''
             (''La petici'' @ [CHR 0xC3, CHR 0xB3] @ ''n tom'' @ [CHR 0xC3, CHR 0xB3] @ '' demasiado tiempo''))
       \<and> (\<forall>t status statusText body.
             t < TIMEOUT_MS \<and> \<not> (200 \<le> status \<and> status \<le> 299) \<longrightarrow>
               req_state (requests (settle cfg p (Headers t status statusText body) d) ! p)
                 = Rejected (JSError ''Error'' (''HTTP '' @ nat_to_string status @ '': '' @ statusText))
               \<and> JSError ''Error'' (''HTTP '' @ nat_to_string status @ '': '' @ statusText)
                   \<noteq> JSError ''Error''
             (''La petici'' @ [CHR 0xC3, CHR 0xB3] @ ''n tom'' @ [CHR 0xC3, CHR 0xB3] @ '' demasiado tiempo''))"
  using assms chain_result_timeout[of n]
  by (auto simp: requests_settle TIMEOUT_MS_def chain_result_http_failure timeout_message_def)

theorem timeout_error_is_distinct_witness:
  "0 < length (requests (run sample_config [CardVisible 0] sample_page))
   \<and> req_state (requests (run sample_config [CardVisible 0] sample_page) ! 0) = Pending
   \<and> req_state (requests (settle sample_config 0 (Headers 30001 200 ''OK'' (Inr JNull))
                            (run sample_config [CardVisible 0] sample_page)) ! 0)
       = Rejected (JSError ''Error''
             (''La petici'' @ [CHR 0xC3, CHR 0xB3] @ ''n tom'' @ [CHR 0xC3, CHR 0xB3] @ '' demasiado tiempo''))
   \<and> req_state (requests (settle sample_config 0 (Headers 120 500 ''Internal Server Error'' (Inl []))
                            (run sample_config [CardVisible 0] sample_page)) ! 0)
       = Rejected (JSError ''Error'' ''HTTP 500: Internal Server Error'')"
proof -
  let ?d = "run sample_config [CardVisible 0] sample_page"
  have a: "0 < length (requests ?d)" by code_simp
  have b: "req_state (requests ?d ! 0) = Pending" by code_simp
  have c: "case Headers 30001 200 ''OK'' (Inr JNull) of
             Headers t status statusText body \<Rightarrow> TIMEOUT_MS < t
           | NetworkFailure t msg \<Rightarrow> TIMEOUT_MS < t | NoResponse \<Rightarrow> True"
    by (simp add: TIMEOUT_MS_def)
  have d: "(120::nat) < TIMEOUT_MS \<and> \<not> (200 \<le> (500::nat) \<and> (500::nat) \<le> 299)"
    by (simp add: TIMEOUT_MS_def)
  have e: "nat_to_string 500 = ''500''" by code_simp
  from timeout_error_is_distinct[OF a b c, of sample_config] a b d e show ?thesis by auto
qed

section \<open>Invariants of the request bookkeeping\<close>


lemma wf_cong:
  "requests d' = requests d \<Longrightarrow> loadingPromises d' = loadingPromises d \<Longrightarrow>
   wf_dashboard d \<Longrightarrow> wf_dashboard d'"
  unfolding wf_dashboard_def by metis

lemma wf_registry_shrinks:
  assumes "wf_dashboard d" and "requests d' = requests d"
    and "\<And>k pr. loadingPromises d' k = Some pr \<Longrightarrow> loadingPromises d k = Some pr"
  shows "wf_dashboard d'"
  using assms unfolding wf_dashboard_def by metis

lemma wf_init: "wf_dashboard (init_dashboard cs ms)"
  by (simp add: wf_dashboard_def init_dashboard_def)

lemma loadingPromises_run_reaction:
  "loadingPromises (run_reaction cfg r res d)
     = (case r of CardOwner i t k \<Rightarrow> (loadingPromises d)(k := None) | _ \<Rightarrow> loadingPromises d)"
  by (cases "(cfg, r, res, d)" rule: run_reaction.cases) (auto simp: Let_def split: option.splits)

lemma cache_run_reaction:
  "cache (run_reaction cfg r res d)
     = (case (r, res) of (CardOwner i t k, Inr data) \<Rightarrow> (cache d)(k \<mapsto> data) | _ \<Rightarrow> cache d)"
  by (cases "(cfg, r, res, d)" rule: run_reaction.cases) (auto simp: Let_def split: option.splits)

declare run_reaction.simps [simp del]

lemma wf_run_reaction: "wf_dashboard d \<Longrightarrow> wf_dashboard (run_reaction cfg r res d)"
  by (rule wf_registry_shrinks[of d])
     (auto simp: loadingPromises_run_reaction split: reaction.splits if_splits)

lemma wf_reactions: "wf_dashboard d \<Longrightarrow> wf_dashboard (foldl (\<lambda>s r. run_reaction cfg r res s) d rs)"
  by (induction rs arbitrary: d) (auto simp: wf_run_reaction)

lemma wf_add_reaction:
  assumes "wf_dashboard d" and "p < length (requests d)"
    and "\<And>i t k. r = CardOwner i t k \<Longrightarrow> k = req_key (requests d ! p)"
  shows "wf_dashboard (d\<lparr>requests := (requests d)
            [p := (requests d ! p)\<lparr>reactions := reactions (requests d ! p) @ [r]\<rparr>]\<rparr>)"
proof -
  let ?rs = "(requests d)[p := (requests d ! p)\<lparr>reactions := reactions (requests d ! p) @ [r]\<rparr>]"
  have key: "req_key (?rs ! q) = req_key (requests d ! q)" if "q < length (requests d)" for q
    using that by (cases "q = p") simp_all
  have st: "req_state (?rs ! q) = req_state (requests d ! q)" if "q < length (requests d)" for q
    using that by (cases "q = p") simp_all
  have re: "set (reactions (?rs ! q)) \<subseteq> set (reactions (requests d ! q)) \<union> (if q = p then {r} else {})"
    if "q < length (requests d)" for q
    using that by (cases "q = p") simp_all
  have a: "\<forall>q i t k. q < length ?rs \<and> CardOwner i t k \<in> set (reactions (?rs ! q))
             \<longrightarrow> k = req_key (?rs ! q)"
  proof (intro allI impI)
    fix q i t k
    assume h: "q < length ?rs \<and> CardOwner i t k \<in> set (reactions (?rs ! q))"
    then have q: "q < length (requests d)" by simp
    from h re[OF q] have "CardOwner i t k \<in> set (reactions (requests d ! q)) \<or> (q = p \<and> r = CardOwner i t k)"
      by (auto split: if_splits)
    then have "k = req_key (requests d ! q)"
      using assms(1) assms(3) q unfolding wf_dashboard_def by blast
    with key[OF q] show "k = req_key (?rs ! q)" by simp
  qed
  have b: "\<forall>k pr. loadingPromises d k = Some pr \<longrightarrow>
           (\<exists>q. pr = OfRequest q \<and> q < length ?rs \<and> req_key (?rs ! q) = k \<and> req_state (?rs ! q) = Pending)"
  proof (intro allI impI)
    fix k pr
    assume "loadingPromises d k = Some pr"
    then obtain q where "pr = OfRequest q" "q < length (requests d)" "req_key (requests d ! q) = k"
        "req_state (requests d ! q) = Pending"
      using assms(1) unfolding wf_dashboard_def by blast
    with key[of q] st[of q]
    show "\<exists>q. pr = OfRequest q \<and> q < length ?rs \<and> req_key (?rs ! q) = k \<and> req_state (?rs ! q) = Pending"
      by auto
  qed
  from a b show ?thesis unfolding wf_dashboard_def by simp
qed

lemma wf_subscribe:
  assumes "wf_dashboard d"
    and "\<And>i t k p. r = CardOwner i t k \<Longrightarrow> pr = OfRequest p \<Longrightarrow> p < length (requests d)
           \<Longrightarrow> k = req_key (requests d ! p)"
  shows "wf_dashboard (subscribe cfg pr r d)"
proof (cases pr)
  case (Resolved x)
  then show ?thesis using assms(1) by (simp add: subscribe_def wf_run_reaction)
next
  case (RejectedNow e)
  then show ?thesis using assms(1) by (simp add: subscribe_def wf_run_reaction)
next
  case (OfRequest p)
  show ?thesis
  proof (cases "p < length (requests d)")
    case False
    with OfRequest assms(1) show ?thesis by (simp add: subscribe_def)
  next
    case True
    show ?thesis
    proof (cases "req_state (requests d ! p)")
      case Pending
      have "wf_dashboard (d\<lparr>requests := (requests d)
            [p := (requests d ! p)\<lparr>reactions := reactions (requests d ! p) @ [r]\<rparr>]\<rparr>)"
        using assms(1) True assms(2)[OF _ OfRequest True] by (rule wf_add_reaction)
      with OfRequest True Pending show ?thesis by (simp add: subscribe_def)
    next
      case (Fulfilled x)
      with OfRequest True assms(1) show ?thesis by (simp add: subscribe_def wf_run_reaction)
    next
      case (Rejected e)
      with OfRequest True assms(1) show ?thesis by (simp add: subscribe_def wf_run_reaction)
    qed
  qed
qed


lemma fetchReport_unknown:
  "cfg t = None \<Longrightarrow>
   fetchReport cfg t opts d = (RejectedNow (JSError ''Error'' (''Reporte no configurado: '' @ t)), d)"
  by (simp add: fetchReport_def)

lemma fetchReport_hit:
  "cfg t = Some c \<Longrightarrow> cache d (generateCacheKey t opts (globalFilters d)) = Some x \<Longrightarrow>
   fetchReport cfg t opts d = (Resolved x, d)"
  by (simp add: fetchReport_def)

lemma fetchReport_inflight:
  "cfg t = Some c \<Longrightarrow> cache d (generateCacheKey t opts (globalFilters d)) = None \<Longrightarrow>
   loadingPromises d (generateCacheKey t opts (globalFilters d)) = Some pr \<Longrightarrow>
   fetchReport cfg t opts d = (pr, d)"
  by (simp add: fetchReport_def)

lemma fetchReport_new:
  "cfg t = Some c \<Longrightarrow> cache d (generateCacheKey t opts (globalFilters d)) = None \<Longrightarrow>
   loadingPromises d (generateCacheKey t opts (globalFilters d)) = None \<Longrightarrow>
   fetchReport cfg t opts d =
     (OfRequest (length (requests d)),
      d\<lparr>requests := requests d @
           [\<lparr>req_url = fetchReport_url c opts (globalFilters d),
             req_key = generateCacheKey t opts (globalFilters d),
             req_state = Pending, reactions = []\<rparr>],
        loadingPromises := (loadingPromises d)
           (generateCacheKey t opts (globalFilters d) \<mapsto> OfRequest (length (requests d)))\<rparr>)"
  by (simp add: fetchReport_def Let_def)

lemma fetchReport_cases:
  obtains (unknown) "cfg t = None"
      "fetchReport cfg t opts d = (RejectedNow (JSError ''Error'' (''Reporte no configurado: '' @ t)), d)"
  | (hit) c x where "cfg t = Some c" "cache d (generateCacheKey t opts (globalFilters d)) = Some x"
      "fetchReport cfg t opts d = (Resolved x, d)"
  | (inflight) c pr where "cfg t = Some c" "cache d (generateCacheKey t opts (globalFilters d)) = None"
      "loadingPromises d (generateCacheKey t opts (globalFilters d)) = Some pr"
      "fetchReport cfg t opts d = (pr, d)"
  | (new) c where "cfg t = Some c" "cache d (generateCacheKey t opts (globalFilters d)) = None"
      "loadingPromises d (generateCacheKey t opts (globalFilters d)) = None"
      "fetchReport cfg t opts d =
         (OfRequest (length (requests d)),
          d\<lparr>requests := requests d @
               [\<lparr>req_url = fetchReport_url c opts (globalFilters d),
                 req_key = generateCacheKey t opts (globalFilters d),
                 req_state = Pending, reactions = []\<rparr>],
            loadingPromises := (loadingPromises d)
               (generateCacheKey t opts (globalFilters d) \<mapsto> OfRequest (length (requests d)))\<rparr>)"
proof (cases "cfg t")
  case None
  then show ?thesis using unknown fetchReport_unknown by blast
next
  case (Some c)
  show ?thesis
  proof (cases "cache d (generateCacheKey t opts (globalFilters d))")
    case (Some x)
    with \<open>cfg t = Some c\<close> show ?thesis using hit fetchReport_hit by blast
  next
    case None
    show ?thesis
    proof (cases "loadingPromises d (generateCacheKey t opts (globalFilters d))")
      case (Some pr)
      with \<open>cfg t = Some c\<close> None show ?thesis using inflight fetchReport_inflight by blast
    next
      case N: None
      with \<open>cfg t = Some c\<close> None show ?thesis using new fetchReport_new by blast
    qed
  qed
qed

lemma wf_new_request:
  assumes "wf_dashboard d" and that: "\<And>i t k. CardOwner i t k \<in> set rs \<Longrightarrow> k = K"
  shows "wf_dashboard (d\<lparr>requests := requests d @ [\<lparr>req_url = u, req_key = K, req_state = Pending, reactions = rs\<rparr>],
                         loadingPromises := (loadingPromises d)(K \<mapsto> OfRequest (length (requests d)))\<rparr>)"
proof -
  let ?new = "\<lparr>req_url = u, req_key = K, req_state = Pending, reactions = rs\<rparr>"
  let ?rs = "requests d @ [?new]"
  have old: "?rs ! q = requests d ! q" if "q < length (requests d)" for q
    using that by (simp add: nth_append)
  have new: "?rs ! length (requests d) = ?new" by simp
  have a: "\<forall>q i t k. q < length ?rs \<and> CardOwner i t k \<in> set (reactions (?rs ! q))
             \<longrightarrow> k = req_key (?rs ! q)"
  proof (intro allI impI)
    fix q i t k
    assume h: "q < length ?rs \<and> CardOwner i t k \<in> set (reactions (?rs ! q))"
    show "k = req_key (?rs ! q)"
    proof (cases "q < length (requests d)")
      case True
      with h old[OF True] assms(1) show ?thesis unfolding wf_dashboard_def by metis
    next
      case False
      with h have "q = length (requests d)" by simp
      with h new that show ?thesis by simp
    qed
  qed
  have b: "\<forall>k pr. ((loadingPromises d)(K \<mapsto> OfRequest (length (requests d)))) k = Some pr \<longrightarrow>
           (\<exists>q. pr = OfRequest q \<and> q < length ?rs \<and> req_key (?rs ! q) = k \<and> req_state (?rs ! q) = Pending)"
  proof (intro allI impI)
    fix k pr
    assume h: "((loadingPromises d)(K \<mapsto> OfRequest (length (requests d)))) k = Some pr"
    show "\<exists>q. pr = OfRequest q \<and> q < length ?rs \<and> req_key (?rs ! q) = k \<and> req_state (?rs ! q) = Pending"
    proof (cases "k = K")
      case True
      with h have "pr = OfRequest (length (requests d))" by simp
      with True new show ?thesis by (intro exI[of _ "length (requests d)"]) simp
    next
      case False
      with h have "loadingPromises d k = Some pr" by simp
      then obtain q where q: "pr = OfRequest q" "q < length (requests d)" "req_key (requests d ! q) = k"
          "req_state (requests d ! q) = Pending"
        using assms(1) unfolding wf_dashboard_def by blast
      with old[of q] show ?thesis by (intro exI[of _ q]) simp
    qed
  qed
  from a b show ?thesis unfolding wf_dashboard_def by simp
qed

lemma wf_fetchReport: "wf_dashboard d \<Longrightarrow> wf_dashboard (snd (fetchReport cfg t opts d))"
  by (cases rule: fetchReport_cases[of cfg t opts d]) (auto intro: wf_new_request)

lemma preserves_refl: "preserves d d"
  by (simp add: preserves_def)

lemma preserves_trans: "preserves a b \<Longrightarrow> preserves b c \<Longrightarrow> preserves a c"
  by (simp add: preserves_def)

lemma preserves_fetchReport: "preserves d (snd (fetchReport cfg t opts d))"
  by (cases rule: fetchReport_cases[of cfg t opts d]) (auto simp: preserves_def)

lemma frame_fetchReport [simp]:
  "globalFilters (snd (fetchReport cfg t opts d)) = globalFilters d"
  "cache (snd (fetchReport cfg t opts d)) = cache d"
  "modals (snd (fetchReport cfg t opts d)) = modals d"
  "cardElements (snd (fetchReport cfg t opts d)) = cardElements d"
  by (cases rule: fetchReport_cases[of cfg t opts d]; simp)+


lemma preserves_run_reaction:
  "(\<And>i t k. r \<noteq> CardOwner i t k) \<Longrightarrow> preserves d (run_reaction cfg r res d)"
  by (cases r) (auto simp: preserves_def loadingPromises_run_reaction cache_run_reaction split: sum.splits)

lemma subscribe_pending:
  "p < length (requests d) \<Longrightarrow> req_state (requests d ! p) = Pending \<Longrightarrow>
   subscribe cfg (OfRequest p) r d =
     d\<lparr>requests := (requests d)[p := (requests d ! p)\<lparr>reactions := reactions (requests d ! p) @ [r]\<rparr>]\<rparr>"
  by (simp add: subscribe_def)

lemma preserves_subscribe:
  assumes "\<And>i t k. r \<noteq> CardOwner i t k"
  shows "preserves d (subscribe cfg pr r d)"
proof (cases pr)
  case (Resolved x)
  then show ?thesis using assms by (simp add: subscribe_def preserves_run_reaction)
next
  case (RejectedNow e)
  then show ?thesis using assms by (simp add: subscribe_def preserves_run_reaction)
next
  case (OfRequest p)
  then show ?thesis using assms
    by (cases "req_state (requests d ! p)")
       (auto simp: subscribe_def preserves_run_reaction preserves_refl, simp add: preserves_def)
qed

lemma loadCardData_miss:
  assumes "cfg t = Some c"
    and "cache d (generateCacheKey t \<lparr>filters = None, useGlobalFilters = True\<rparr> (globalFilters d)) = None"
    and "loadingPromises d (generateCacheKey t \<lparr>filters = None, useGlobalFilters = True\<rparr> (globalFilters d)) = None"
  shows "loadCardData cfg i t d =
     (setCardLoading i True d)
       \<lparr>requests := requests d @
           [\<lparr>req_url = fetchReport_url c \<lparr>filters = None, useGlobalFilters = True\<rparr> (globalFilters d),
             req_key = generateCacheKey t \<lparr>filters = None, useGlobalFilters = True\<rparr> (globalFilters d),
             req_state = Pending,
             reactions = [CardOwner i t (generateCacheKey t \<lparr>filters = None, useGlobalFilters = True\<rparr> (globalFilters d))]\<rparr>],
        loadingPromises := (loadingPromises d)
           (generateCacheKey t \<lparr>filters = None, useGlobalFilters = True\<rparr> (globalFilters d)
              \<mapsto> OfRequest (length (requests d)))\<rparr>"
proof -
  let ?K = "generateCacheKey t \<lparr>filters = None, useGlobalFilters = True\<rparr> (globalFilters d)"
  let ?d1 = "setCardLoading i True d"
  have f: "fetchReport cfg t \<lparr>filters = None, useGlobalFilters = True\<rparr> ?d1 =
     (OfRequest (length (requests d)),
      ?d1\<lparr>requests := requests d @
           [\<lparr>req_url = fetchReport_url c \<lparr>filters = None, useGlobalFilters = True\<rparr> (globalFilters d),
             req_key = ?K, req_state = Pending, reactions = []\<rparr>],
        loadingPromises := (loadingPromises d)(?K \<mapsto> OfRequest (length (requests d)))\<rparr>)"
    using fetchReport_new[of cfg t c ?d1 "\<lparr>filters = None, useGlobalFilters = True\<rparr>"] assms by simp
  show ?thesis
    using assms f by (simp add: loadCardData_def Let_def subscribe_def)
qed

lemma wf_loadCardData: "wf_dashboard d \<Longrightarrow> wf_dashboard (loadCardData cfg i t d)"
proof -
  assume wf: "wf_dashboard d"
  let ?K = "generateCacheKey t \<lparr>filters = None, useGlobalFilters = True\<rparr> (globalFilters d)"
  show ?thesis
  proof (cases "cfg t")
    case None
    then show ?thesis using wf by (simp add: loadCardData_def)
  next
    case (Some c)
    show ?thesis
    proof (cases "cache d ?K")
      case (Some x)
      with \<open>cfg t = Some c\<close> wf show ?thesis
        by (auto simp: loadCardData_def Let_def intro: wf_cong[of _ d])
    next
      case None
      show ?thesis
      proof (cases "loadingPromises d ?K")
        case (Some pr)
        with \<open>cfg t = Some c\<close> None wf show ?thesis
          by (auto simp: loadCardData_def Let_def intro: wf_subscribe)
      next
        case N: None
        have "wf_dashboard (setCardLoading i True d)" using wf by (auto intro: wf_cong[of _ d])
        from wf_new_request[OF this, of "[CardOwner i t ?K]" ?K]
        show ?thesis unfolding loadCardData_miss[where cfg=cfg and t=t and c=c and d=d and i=i, OF \<open>cfg t = Some c\<close> None N]
          by simp
      qed
    qed
  qed
qed

lemma preserves_loadCardData: "preserves d (loadCardData cfg i t d)"
proof -
  let ?K = "generateCacheKey t \<lparr>filters = None, useGlobalFilters = True\<rparr> (globalFilters d)"
  show ?thesis
  proof (cases "cfg t")
    case None
    then show ?thesis by (simp add: loadCardData_def preserves_refl)
  next
    case (Some c)
    show ?thesis
    proof (cases "cache d ?K")
      case (Some x)
      with \<open>cfg t = Some c\<close> show ?thesis
        by (auto simp: loadCardData_def Let_def preserves_def)
    next
      case None
      show ?thesis
      proof (cases "loadingPromises d ?K")
        case (Some pr)
        with \<open>cfg t = Some c\<close> None show ?thesis
          by (auto simp: loadCardData_def Let_def intro: preserves_subscribe)
      next
        case N: None
        show ?thesis unfolding loadCardData_miss[where cfg=cfg and t=t and c=c and d=d and i=i, OF \<open>cfg t = Some c\<close> None N]
          using N by (auto simp: preserves_def)
      qed
    qed
  qed
qed


lemma wf_refreshCards_fold:
  "wf_dashboard d \<Longrightarrow> wf_dashboard (foldl (\<lambda>s (type, i). loadCardData cfg i type s) d xs)"
  by (induction xs arbitrary: d) (auto simp: wf_loadCardData)

lemma wf_clearCache: "wf_dashboard d \<Longrightarrow> wf_dashboard (clearCache d)"
  unfolding wf_dashboard_def clearCache_def by auto

lemma wf_applyRange: "wf_dashboard d \<Longrightarrow> wf_dashboard (applyRange cfg s e d)"
proof -
  assume wf: "wf_dashboard d"
  have "wf_dashboard (d\<lparr>globalFilters := \<lparr>range_start = s, range_end = e\<rparr>\<rparr>)"
    using wf by (auto intro: wf_cong[of _ d])
  then have "wf_dashboard (refreshCards cfg (clearCache (d\<lparr>globalFilters := \<lparr>range_start = s, range_end = e\<rparr>\<rparr>)))"
    unfolding refreshCards_def by (intro wf_refreshCards_fold wf_clearCache)
  then show ?thesis
    unfolding applyRange_def Let_def by (rule wf_cong[rotated 2]) simp_all
qed

lemma wf_cardVisible: "wf_dashboard d \<Longrightarrow> wf_dashboard (cardVisible cfg i d)"
  unfolding cardVisible_def Let_def
  by (auto intro: wf_cong[of _ "loadCardData cfg i (trigger (cardElements d ! i)) d"] wf_loadCardData)

lemma preserves_cardVisible: "preserves d (cardVisible cfg i d)"
  using preserves_loadCardData[of d cfg i "trigger (cardElements d ! i)"]
  unfolding cardVisible_def Let_def by (auto simp: preserves_def)

lemma runReport_unfold:
  "modals d type = Some m \<Longrightarrow>
   runReport cfg type d =
     subscribe cfg
       (fst (fetchReport cfg (mtype m) \<lparr>filters = Some (collectFilters m), useGlobalFilters = False\<rparr>
               (d\<lparr>modals := (modals d)(type \<mapsto> m\<lparr>loading := True, lastFilters := collectFilters m\<rparr>)\<rparr>)))
       (ModalRun type)
       (snd (fetchReport cfg (mtype m) \<lparr>filters = Some (collectFilters m), useGlobalFilters = False\<rparr>
               (d\<lparr>modals := (modals d)(type \<mapsto> m\<lparr>loading := True, lastFilters := collectFilters m\<rparr>)\<rparr>)))"
  by (simp add: runReport_def Let_def split_beta)

lemma wf_runReport: "wf_dashboard d \<Longrightarrow> wf_dashboard (runReport cfg type d)"
proof (cases "modals d type")
  case None
  assume "wf_dashboard d"
  with None show ?thesis by (simp add: runReport_def)
next
  case (Some m)
  assume wf: "wf_dashboard d"
  let ?d1 = "d\<lparr>modals := (modals d)(type \<mapsto> m\<lparr>loading := True, lastFilters := collectFilters m\<rparr>)\<rparr>"
  have "wf_dashboard ?d1" using wf by (auto intro: wf_cong[of _ d])
  then show ?thesis unfolding runReport_unfold[OF Some]
    by (intro wf_subscribe wf_fetchReport) simp_all
qed

lemma preserves_runReport: "preserves d (runReport cfg type d)"
proof (cases "modals d type")
  case None
  then show ?thesis by (simp add: runReport_def preserves_refl)
next
  case (Some m)
  let ?d1 = "d\<lparr>modals := (modals d)(type \<mapsto> m\<lparr>loading := True, lastFilters := collectFilters m\<rparr>)\<rparr>"
  let ?o = "\<lparr>filters = Some (collectFilters m), useGlobalFilters = False\<rparr>"
  have a: "preserves d ?d1" by (simp add: preserves_def)
  have b: "preserves ?d1 (snd (fetchReport cfg (mtype m) ?o ?d1))" by (rule preserves_fetchReport)
  have c: "preserves (snd (fetchReport cfg (mtype m) ?o ?d1))
             (subscribe cfg (fst (fetchReport cfg (mtype m) ?o ?d1)) (ModalRun type)
                (snd (fetchReport cfg (mtype m) ?o ?d1)))"
    by (rule preserves_subscribe) simp
  show ?thesis unfolding runReport_unfold[OF Some]
    using a b c preserves_trans by blast
qed

lemma wf_modal_open: "wf_dashboard d \<Longrightarrow> wf_dashboard (modal_open cfg type d)"
  unfolding modal_open_def Let_def
  by (auto split: option.splits intro!: wf_runReport intro: wf_cong[of _ d])

lemma preserves_modal_open: "preserves d (modal_open cfg type d)"
proof -
  have a: "preserves d (d\<lparr>modals := ms, activeModal := am\<rparr>)" for ms am
    by (simp add: preserves_def)
  show ?thesis
    unfolding modal_open_def Let_def
    by (auto split: option.splits simp: preserves_refl a intro: preserves_trans[OF a preserves_runReport])
qed

lemma wf_modal_close: "wf_dashboard d \<Longrightarrow> wf_dashboard (modal_close type d)"
  unfolding modal_close_def by (auto split: option.splits intro: wf_cong[of _ d])

lemma preserves_modal_close: "preserves d (modal_close type d)"
  unfolding modal_close_def by (auto split: option.splits simp: preserves_def)

lemma wf_editFilter: "wf_dashboard d \<Longrightarrow> wf_dashboard (editFilter type j v d)"
  unfolding editFilter_def by (auto split: option.splits intro: wf_cong[of _ d])

lemma preserves_editFilter: "preserves d (editFilter type j v d)"
  unfolding editFilter_def by (auto split: option.splits simp: preserves_def)


lemma settle_not_pending:
  "\<not> (p < length (requests d) \<and> req_state (requests d ! p) = Pending) \<Longrightarrow> settle cfg p n d = d"
  unfolding settle_def by (rule if_not_P)

lemma settle_pending:
  "p < length (requests d) \<Longrightarrow> req_state (requests d ! p) = Pending \<Longrightarrow>
   settle cfg p n d =
     foldl (\<lambda>s r. run_reaction cfg r (chain_result n) s)
       (d\<lparr>cache := (case chain_result n of Inr data \<Rightarrow> (cache d)(req_key (requests d ! p) \<mapsto> data)
                      | Inl e \<Rightarrow> cache d),
          loadingPromises := (loadingPromises d)(req_key (requests d ! p) := None),
          requests := (requests d)
            [p := (requests d ! p)\<lparr>req_state := (case chain_result n of Inr data \<Rightarrow> Fulfilled data
                                                      | Inl e \<Rightarrow> Rejected e)\<rparr>]\<rparr>)
       (reactions (requests d ! p))"
  by (cases "chain_result n") (simp_all add: settle_def Let_def)

lemma wf_settled:
  assumes "wf_dashboard d" and "p < length (requests d)"
  shows "wf_dashboard (d\<lparr>cache := c,
                         loadingPromises := (loadingPromises d)(req_key (requests d ! p) := None),
                         requests := (requests d)[p := (requests d ! p)\<lparr>req_state := st\<rparr>]\<rparr>)"
proof -
  let ?rs = "(requests d)[p := (requests d ! p)\<lparr>req_state := st\<rparr>]"
  have key: "req_key (?rs ! q) = req_key (requests d ! q)" if "q < length (requests d)" for q
    using that by (cases "q = p") simp_all
  have re: "reactions (?rs ! q) = reactions (requests d ! q)" if "q < length (requests d)" for q
    using that by (cases "q = p") simp_all
  have st: "req_state (?rs ! q) = req_state (requests d ! q)" if "q < length (requests d)" "q \<noteq> p" for q
    using that by simp
  have a: "\<forall>q i t k. q < length ?rs \<and> CardOwner i t k \<in> set (reactions (?rs ! q))
             \<longrightarrow> k = req_key (?rs ! q)"
  proof (intro allI impI)
    fix q i t k
    assume h: "q < length ?rs \<and> CardOwner i t k \<in> set (reactions (?rs ! q))"
    then have q: "q < length (requests d)" by simp
    with h re[OF q] have "k = req_key (requests d ! q)"
      using assms(1) unfolding wf_dashboard_def by metis
    with key[OF q] show "k = req_key (?rs ! q)" by simp
  qed
  have b: "\<forall>k pr. ((loadingPromises d)(req_key (requests d ! p) := None)) k = Some pr \<longrightarrow>
           (\<exists>q. pr = OfRequest q \<and> q < length ?rs \<and> req_key (?rs ! q) = k \<and> req_state (?rs ! q) = Pending)"
  proof (intro allI impI)
    fix k pr
    assume h: "((loadingPromises d)(req_key (requests d ! p) := None)) k = Some pr"
    then have k: "k \<noteq> req_key (requests d ! p)" and "loadingPromises d k = Some pr"
      by (auto split: if_splits)
    then obtain q where q: "pr = OfRequest q" "q < length (requests d)" "req_key (requests d ! q) = k"
        "req_state (requests d ! q) = Pending"
      using assms(1) unfolding wf_dashboard_def by blast
    with k have "q \<noteq> p" by auto
    with q key[of q] st[of q]
    show "\<exists>q. pr = OfRequest q \<and> q < length ?rs \<and> req_key (?rs ! q) = k \<and> req_state (?rs ! q) = Pending"
      by (intro exI[of _ q]) simp
  qed
  from a b show ?thesis unfolding wf_dashboard_def by simp
qed

lemma wf_settle: "wf_dashboard d \<Longrightarrow> wf_dashboard (settle cfg p n d)"
proof (cases "p < length (requests d) \<and> req_state (requests d ! p) = Pending")
  case False
  assume "wf_dashboard d"
  with False show ?thesis by (simp add: settle_not_pending)
next
  case True
  assume wf: "wf_dashboard d"
  from True show ?thesis
    by (simp add: settle_pending) (intro wf_reactions wf_settled wf, simp)
qed

lemma loadingPromises_reactions:
  assumes "\<And>i t k. CardOwner i t k \<in> set rs \<Longrightarrow> k = K" and "loadingPromises d K = None"
  shows "loadingPromises (foldl (\<lambda>s r. run_reaction cfg r res s) d rs) = loadingPromises d"
  using assms
proof (induction rs arbitrary: d)
  case Nil
  then show ?case by simp
next
  case (Cons r rs)
  have "loadingPromises (run_reaction cfg r res d) = loadingPromises d"
  proof (cases r)
    case (CardOwner i t k)
    with Cons.prems(1)[of i t k] have "k = K" by simp
    with CardOwner Cons.prems(2) show ?thesis by (simp add: loadingPromises_run_reaction fun_upd_idem)
  qed (simp_all add: loadingPromises_run_reaction)
  moreover have "loadingPromises (foldl (\<lambda>s r. run_reaction cfg r res s) (run_reaction cfg r res d) rs)
                   = loadingPromises (run_reaction cfg r res d)"
    by (rule Cons.IH) (use Cons.prems calculation in auto)
  ultimately show ?case by simp
qed

lemma cache_reactions_failure:
  "cache (foldl (\<lambda>s r. run_reaction cfg r (Inl e) s) d rs) = cache d"
  by (induction rs arbitrary: d) (auto simp: cache_run_reaction split: reaction.splits)

lemma cache_reactions_success:
  assumes "\<And>i t k. CardOwner i t k \<in> set rs \<Longrightarrow> k = K" and "cache d K = Some data"
  shows "cache (foldl (\<lambda>s r. run_reaction cfg r (Inr data) s) d rs) = cache d"
  using assms
proof (induction rs arbitrary: d)
  case Nil
  then show ?case by simp
next
  case (Cons r rs)
  have "cache (run_reaction cfg r (Inr data) d) = cache d"
  proof (cases r)
    case (CardOwner i t k)
    with Cons.prems(1)[of i t k] have "k = K" by simp
    with CardOwner Cons.prems(2) show ?thesis by (simp add: cache_run_reaction fun_upd_idem)
  qed (simp_all add: cache_run_reaction)
  moreover have "cache (foldl (\<lambda>s r. run_reaction cfg r (Inr data) s) (run_reaction cfg r (Inr data) d) rs)
                   = cache (run_reaction cfg r (Inr data) d)"
    by (rule Cons.IH) (use Cons.prems calculation in auto)
  ultimately show ?case by simp
qed

lemma owner_keys:
  "wf_dashboard d \<Longrightarrow> p < length (requests d) \<Longrightarrow>
   CardOwner i t k \<in> set (reactions (requests d ! p)) \<Longrightarrow> k = req_key (requests d ! p)"
  unfolding wf_dashboard_def by blast

lemma loadingPromises_settle:
  assumes "wf_dashboard d" and "p < length (requests d)" and "req_state (requests d ! p) = Pending"
  shows "loadingPromises (settle cfg p n d) = (loadingPromises d)(req_key (requests d ! p) := None)"
  unfolding settle_pending[OF assms(2,3)]
  by (subst loadingPromises_reactions[where K = "req_key (requests d ! p)"])
     (auto dest: owner_keys[OF assms(1,2)])

lemma cache_settle:
  assumes "wf_dashboard d" and "p < length (requests d)" and "req_state (requests d ! p) = Pending"
  shows "cache (settle cfg p n d) =
           (case chain_result n of Inr data \<Rightarrow> (cache d)(req_key (requests d ! p) \<mapsto> data)
            | Inl e \<Rightarrow> cache d)"
proof (cases "chain_result n")
  case (Inl e)
  then show ?thesis unfolding settle_pending[OF assms(2,3)]
    by (simp add: cache_reactions_failure)
next
  case (Inr data)
  then show ?thesis unfolding settle_pending[OF assms(2,3)]
    by (simp, subst cache_reactions_success[where K = "req_key (requests d ! p)"])
       (auto dest: owner_keys[OF assms(1,2)])
qed

lemma globalFilters_settle [simp]: "globalFilters (settle cfg p n d) = globalFilters d"
  by (cases "p < length (requests d) \<and> req_state (requests d ! p) = Pending")
     (auto simp: settle_pending settle_not_pending)

lemma length_requests_settle [simp]: "length (requests (settle cfg p n d)) = length (requests d)"
  by (cases "p < length (requests d) \<and> req_state (requests d ! p) = Pending")
     (auto simp: settle_pending settle_not_pending)

section \<open>Traces of events\<close>

lemma wf_step: "wf_dashboard d \<Longrightarrow> wf_dashboard (step cfg e d)"
  by (cases e)
     (auto simp: wf_cardVisible wf_applyRange wf_modal_open wf_modal_close wf_runReport
                 wf_editFilter wf_settle split: option.splits)

lemma wf_run: "wf_dashboard d \<Longrightarrow> wf_dashboard (run cfg es d)"
  unfolding run_def by (induction es arbitrary: d) (auto simp: wf_step)

lemma wf_reachable: "wf_dashboard (run cfg es (init_dashboard cs ms))"
  by (rule wf_run) (rule wf_init)

lemma run_Cons: "run cfg (e # es) d = run cfg es (step cfg e d)"
  by (simp add: run_def)

lemma run_Nil: "run cfg [] d = d"
  by (simp add: run_def)

lemma preserves_step:
  "\<not> clears e \<Longrightarrow> (\<And>p n. e \<noteq> Settle p n) \<Longrightarrow> preserves d (step cfg e d)"
  by (cases e)
     (auto simp: preserves_cardVisible preserves_modal_open preserves_modal_close preserves_runReport
                 preserves_editFilter preserves_refl split: option.splits)

lemma fetchReport_after_removal:
  assumes "loadingPromises d (generateCacheKey t opts (globalFilters d)) = None"
    and "q < length (requests d)"
  shows "fst (fetchReport cfg t opts d) \<noteq> OfRequest q"
  using assms by (cases rule: fetchReport_cases[of cfg t opts d]) auto

text \<open>
  C7. In every state the page reaches, when a pending request settles, whatever the
  outcome (payload, HTTP failure, timeout, network failure, parse failure), the in-flight
  registry loses the entry of the request's key and nothing else; a failure leaves the
  cache as it was; every promise still registered belongs to a pending request; and a
  new \<^verbatim>\<open>fetchReport\<close> for that key is handed no promise of any earlier request.
\<close>

theorem in_flight_entry_removed_on_settle:
  assumes "d = run cfg es (init_dashboard cs ms)"
    and "p < length (requests d)" and "req_state (requests d ! p) = Pending"
  shows "loadingPromises (settle cfg p n d) = (loadingPromises d)(req_key (requests d ! p) := None)
       \<and> ((\<forall>data. chain_result n \<noteq> Inr data) \<longrightarrow> cache (settle cfg p n d) = cache d)
       \<and> (\<forall>k pr. loadingPromises (settle cfg p n d) k = Some pr \<longrightarrow>
             (\<exists>q. pr = OfRequest q \<and> q < length (requests (settle cfg p n d))
                  \<and> req_state (requests (settle cfg p n d) ! q) = Pending))
       \<and> (\<forall>type opts q.
             generateCacheKey type opts (globalFilters (settle cfg p n d)) = req_key (requests d ! p)
             \<and> q < length (requests (settle cfg p n d))
             \<longrightarrow> fst (fetchReport cfg type opts (settle cfg p n d)) \<noteq> OfRequest q)"
proof -
  have wf: "wf_dashboard d" unfolding assms(1) by (rule wf_reachable)
  have a: "loadingPromises (settle cfg p n d) = (loadingPromises d)(req_key (requests d ! p) := None)"
    by (rule loadingPromises_settle[OF wf assms(2,3)])
  have b: "(\<forall>data. chain_result n \<noteq> Inr data) \<longrightarrow> cache (settle cfg p n d) = cache d"
    using cache_settle[OF wf assms(2,3), of cfg n] by (cases "chain_result n") auto
  have "wf_dashboard (settle cfg p n d)" using wf by (rule wf_settle)
  then have c: "\<forall>k pr. loadingPromises (settle cfg p n d) k = Some pr \<longrightarrow>
             (\<exists>q. pr = OfRequest q \<and> q < length (requests (settle cfg p n d))
                  \<and> req_state (requests (settle cfg p n d) ! q) = Pending)"
    unfolding wf_dashboard_def by blast
  have e: "\<forall>type opts q.
             generateCacheKey type opts (globalFilters (settle cfg p n d)) = req_key (requests d ! p)
             \<and> q < length (requests (settle cfg p n d))
             \<longrightarrow> fst (fetchReport cfg type opts (settle cfg p n d)) \<noteq> OfRequest q"
  proof (intro allI impI)
    fix type opts q
    assume h: "generateCacheKey type opts (globalFilters (settle cfg p n d)) = req_key (requests d ! p)
             \<and> q < length (requests (settle cfg p n d))"
    then have "loadingPromises (settle cfg p n d)
                 (generateCacheKey type opts (globalFilters (settle cfg p n d))) = None"
      using a by simp
    with h show "fst (fetchReport cfg type opts (settle cfg p n d)) \<noteq> OfRequest q"
      using fetchReport_after_removal by blast
  qed
  from a b c e show ?thesis by blast
qed

theorem in_flight_entry_removed_on_settle_witness:
  "0 < length (requests (run sample_config [CardVisible 0] sample_page))
   \<and> req_state (requests (run sample_config [CardVisible 0] sample_page) ! 0) = Pending
   \<and> loadingPromises (run sample_config [CardVisible 0] sample_page)
        (req_key (requests (run sample_config [CardVisible 0] sample_page) ! 0)) = Some (OfRequest 0)
   \<and> loadingPromises (settle sample_config 0 (Headers 120 500 ''Internal Server Error'' (Inl []))
                        (run sample_config [CardVisible 0] sample_page))
        (req_key (requests (run sample_config [CardVisible 0] sample_page) ! 0)) = None
   \<and> cache (settle sample_config 0 (Headers 120 500 ''Internal Server Error'' (Inl []))
               (run sample_config [CardVisible 0] sample_page))
       = cache (run sample_config [CardVisible 0] sample_page)"
proof -
  let ?d = "run sample_config [CardVisible 0] sample_page"
  let ?n = "Headers 120 500 ''Internal Server Error'' (Inl [])"
  have r: "?d = run sample_config [CardVisible 0] (init_dashboard [sample_card ''inventory-cost'', sample_card ''total-sales'']
       [''total-sales'' \<mapsto> sample_modal ''total-sales''])"
    by (simp add: sample_page_def)
  have a: "0 < length (requests ?d)" by code_simp
  have b: "req_state (requests ?d ! 0) = Pending" by code_simp
  have c: "loadingPromises ?d (req_key (requests ?d ! 0)) = Some (OfRequest 0)" by code_simp
  have f: "\<forall>data. chain_result ?n \<noteq> Inr data" by (simp add: chain_result_def TIMEOUT_MS_def)
  from in_flight_entry_removed_on_settle[OF r a b, of ?n] a b c f show ?thesis by simp
qed

lemma globalFilters_step: "\<not> clears e \<Longrightarrow> globalFilters (step cfg e d) = globalFilters d"
proof (cases "\<exists>p n. e = Settle p n")
  case True
  then show ?thesis by auto
next
  case False
  assume "\<not> clears e"
  with False have "preserves d (step cfg e d)" by (intro preserves_step) auto
  then show ?thesis by (simp add: preserves_def)
qed

lemma quiet_step:
  assumes "wf_dashboard d" and "\<not> clears e" and "\<not> settles_key K d e"
  shows "cache (step cfg e d) K = cache d K"
    and "loadingPromises d K = Some pr \<Longrightarrow> loadingPromises (step cfg e d) K = Some pr"
proof -
  have "cache (step cfg e d) K = cache d K
        \<and> (loadingPromises d K = Some pr \<longrightarrow> loadingPromises (step cfg e d) K = Some pr)"
  proof (cases "\<exists>p n. e = Settle p n")
    case False
    with assms(2) have "preserves d (step cfg e d)" by (intro preserves_step) auto
    then show ?thesis by (simp add: preserves_def)
  next
    case True
    then obtain p n where e: "e = Settle p n" by blast
    show ?thesis
    proof (cases "p < length (requests d) \<and> req_state (requests d ! p) = Pending")
      case False
      with e show ?thesis by (simp add: settle_not_pending)
    next
      case True
      with assms(3) e have k: "req_key (requests d ! p) \<noteq> K" by simp
      from True have p: "p < length (requests d)" and s: "req_state (requests d ! p) = Pending" by auto
      show ?thesis
        using k e cache_settle[OF assms(1) p s, of cfg n] loadingPromises_settle[OF assms(1) p s, of cfg n]
        by (cases "chain_result n") auto
    qed
  qed
  then show "cache (step cfg e d) K = cache d K"
    and "loadingPromises d K = Some pr \<Longrightarrow> loadingPromises (step cfg e d) K = Some pr" by auto
qed

lemma cache_grows_step:
  assumes "wf_dashboard d" and "\<not> clears e" and "cache d K = Some x"
  shows "\<exists>y. cache (step cfg e d) K = Some y"
proof (cases "\<exists>p n. e = Settle p n")
  case False
  with assms(2) have "preserves d (step cfg e d)" by (intro preserves_step) auto
  with assms(3) show ?thesis by (simp add: preserves_def)
next
  case True
  then obtain p n where e: "e = Settle p n" by blast
  show ?thesis
  proof (cases "p < length (requests d) \<and> req_state (requests d ! p) = Pending")
    case False
    with e assms(3) show ?thesis by (simp add: settle_not_pending)
  next
    case True
    then have p: "p < length (requests d)" and s: "req_state (requests d ! p) = Pending" by auto
    show ?thesis
      using e assms(3) cache_settle[OF assms(1) p s, of cfg n]
      by (cases "chain_result n") auto
  qed
qed

lemma cached_stays:
  "wf_dashboard d \<Longrightarrow> list_all (\<lambda>e. \<not> clears e) es \<Longrightarrow> cache d K = Some x \<Longrightarrow>
   (\<exists>y. cache (run cfg es d) K = Some y) \<and> globalFilters (run cfg es d) = globalFilters d"
proof (induction es arbitrary: d x)
  case Nil
  then show ?case by (simp add: run_Nil)
next
  case (Cons e es)
  from Cons.prems have ne: "\<not> clears e" and rest: "list_all (\<lambda>e. \<not> clears e) es" by auto
  from cache_grows_step[OF Cons.prems(1) ne Cons.prems(3)]
  obtain y where y: "cache (step cfg e d) K = Some y" by blast
  have "wf_dashboard (step cfg e d)" using Cons.prems(1) by (rule wf_step)
  from Cons.IH[OF this rest y] globalFilters_step[OF ne, of cfg d]
  show ?case by (simp add: run_Cons)
qed

lemma quiet_run_cache:
  "wf_dashboard d \<Longrightarrow> quiet cfg K d es \<Longrightarrow>
   cache (run cfg es d) K = cache d K \<and> globalFilters (run cfg es d) = globalFilters d"
proof (induction es arbitrary: d)
  case Nil
  then show ?case by (simp add: run_Nil)
next
  case (Cons e es)
  from Cons.prems(2) have ne: "\<not> clears e" and ns: "\<not> settles_key K d e"
    and rest: "quiet cfg K (step cfg e d) es" by auto
  have wf': "wf_dashboard (step cfg e d)" using Cons.prems(1) by (rule wf_step)
  from Cons.IH[OF wf' rest] quiet_step(1)[OF Cons.prems(1) ne ns, of cfg] globalFilters_step[OF ne, of cfg d]
  show ?case by (simp add: run_Cons)
qed


lemma clearCache_empties:
  "cache (clearCache d) = Map.empty \<and> loadingPromises (clearCache d) = Map.empty
   \<and> (\<forall>c \<in> set (cardElements (clearCache d)). \<not> loaded c)"
  by (auto simp: clearCache_def)

text \<open>
  C3. In every state the page reaches, once a pending request has resolved with a
  payload, the payload is in the cache under the request's key; after any further events
  that do not apply the range (the one caller of \<^verbatim>\<open>clearCache\<close>), every \<^verbatim>\<open>fetchReport\<close>
  of a configured type that derives this key returns \<^verbatim>\<open>Promise.resolve\<close> of the cached
  payload and leaves the state, the network log included, as it is; the cached payload is
  the one stored, unless another request for the same key has settled since.
  \<^verbatim>\<open>clearCache\<close> empties the cache and the registry and unmarks every card.
\<close>

theorem cache_hit_until_clearCache:
  assumes "d = run cfg es0 (init_dashboard cs ms)"
    and "p < length (requests d)" and "req_state (requests d ! p) = Pending"
    and "chain_result n = Inr data"
    and "list_all (\<lambda>e. \<not> clears e) es"
    and "cfg type \<noteq> None"
    and "generateCacheKey type opts (globalFilters (run cfg es (settle cfg p n d))) = req_key (requests d ! p)"
  shows "cache (settle cfg p n d) (req_key (requests d ! p)) = Some data
       \<and> (\<exists>data'. cache (run cfg es (settle cfg p n d)) (req_key (requests d ! p)) = Some data'
             \<and> fetchReport cfg type opts (run cfg es (settle cfg p n d))
                 = (Resolved data', run cfg es (settle cfg p n d))
             \<and> (quiet cfg (req_key (requests d ! p)) (settle cfg p n d) es \<longrightarrow> data' = data))
       \<and> cache (clearCache (run cfg es (settle cfg p n d))) = Map.empty
       \<and> loadingPromises (clearCache (run cfg es (settle cfg p n d))) = Map.empty
       \<and> (\<forall>c \<in> set (cardElements (clearCache (run cfg es (settle cfg p n d)))). \<not> loaded c)"
proof -
  let ?K = "req_key (requests d ! p)"
  let ?s = "settle cfg p n d"
  have wf: "wf_dashboard d" unfolding assms(1) by (rule wf_reachable)
  have wfs: "wf_dashboard ?s" using wf by (rule wf_settle)
  have a: "cache ?s ?K = Some data"
    using cache_settle[OF wf assms(2,3), of cfg n] assms(4) by simp
  from cached_stays[OF wfs assms(5) a, of cfg]
  obtain y where y: "cache (run cfg es ?s) ?K = Some y" by blast
  from assms(6) obtain c where c: "cfg type = Some c" by auto
  have f: "fetchReport cfg type opts (run cfg es ?s) = (Resolved y, run cfg es ?s)"
    using fetchReport_hit[where cfg=cfg and t=type and c=c and d="run cfg es ?s" and opts=opts and x=y] c y assms(7)
    by simp
  have q: "quiet cfg ?K ?s es \<longrightarrow> y = data"
    using quiet_run_cache[OF wfs, of cfg ?K es] a y by auto
  from a y f q clearCache_empties[of "run cfg es ?s"] show ?thesis by blast
qed


theorem cache_hit_until_clearCache_witness:
  "0 < length (requests (run sample_config [CardVisible 0] sample_page))
   \<and> req_state (requests (run sample_config [CardVisible 0] sample_page) ! 0) = Pending
   \<and> quiet sample_config (req_key (requests (run sample_config [CardVisible 0] sample_page) ! 0))
         (settle sample_config 0
            (Headers 120 200 ''OK'' (Inr (JObject [(''total_cost_display'', JString ''RD$5.00'')])))
            (run sample_config [CardVisible 0] sample_page))
         [CardVisible 1]
   \<and> fst (fetchReport sample_config ''inventory-cost'' \<lparr>filters = None, useGlobalFilters = True\<rparr>
             (run sample_config [CardVisible 1]
                (settle sample_config 0
                   (Headers 120 200 ''OK'' (Inr (JObject [(''total_cost_display'', JString ''RD$5.00'')])))
                   (run sample_config [CardVisible 0] sample_page))))
       = Resolved (JObject [(''total_cost_display'', JString ''RD$5.00'')])"
proof -
  let ?d = "run sample_config [CardVisible 0] sample_page"
  let ?data = "JObject [(''total_cost_display'', JString ''RD$5.00'')]"
  let ?n = "Headers 120 200 ''OK'' (Inr ?data)"
  let ?es = "[CardVisible 1]"
  let ?o = "\<lparr>filters = None, useGlobalFilters = True\<rparr>"
  have r: "?d = run sample_config [CardVisible 0] (init_dashboard [sample_card ''inventory-cost'', sample_card ''total-sales'']
       [''total-sales'' \<mapsto> sample_modal ''total-sales''])"
    by (simp add: sample_page_def)
  have a: "0 < length (requests ?d)" by code_simp
  have b: "req_state (requests ?d ! 0) = Pending" by code_simp
  have c: "chain_result ?n = Inr ?data" by (simp add: chain_result_def TIMEOUT_MS_def)
  have e: "list_all (\<lambda>e. \<not> clears e) ?es" by simp
  have f: "sample_config ''inventory-cost'' \<noteq> None" by (simp add: sample_config_def REPORT_CONFIG_def)
  have g0: "generateCacheKey ''inventory-cost'' ?o (globalFilters ?d) = req_key (requests ?d ! 0)"
    by code_simp
  have "globalFilters (run sample_config ?es (settle sample_config 0 ?n ?d)) = globalFilters ?d"
    using globalFilters_step[of "CardVisible 1" sample_config "settle sample_config 0 ?n ?d"]
    by (simp add: run_Cons run_Nil)
  with g0 have g: "generateCacheKey ''inventory-cost'' ?o
                     (globalFilters (run sample_config ?es (settle sample_config 0 ?n ?d)))
                   = req_key (requests ?d ! 0)" by simp
  have q: "quiet sample_config (req_key (requests ?d ! 0)) (settle sample_config 0 ?n ?d) ?es"
    by simp
  from cache_hit_until_clearCache[OF r a b c e f g] q a b show ?thesis by auto
qed

lemma nnr_refl: "no_new_request K d d"
  by (simp add: no_new_request_def)

lemma nnr_same: "map req_key (requests d') = map req_key (requests d) \<Longrightarrow> no_new_request K d d'"
  by (simp add: no_new_request_def)

lemma nnr_trans: "no_new_request K a b \<Longrightarrow> no_new_request K b c \<Longrightarrow> no_new_request K a c"
  unfolding no_new_request_def by auto

lemma keys_subscribe: "map req_key (requests (subscribe cfg pr r d)) = map req_key (requests d)"
proof (cases pr)
  case (OfRequest p)
  show ?thesis
  proof (cases "p < length (requests d) \<and> req_state (requests d ! p) = Pending")
    case True
    then show ?thesis unfolding OfRequest
      by (simp add: subscribe_pending map_update list_update_same_conv)
  next
    case False
    then show ?thesis unfolding OfRequest
      by (cases "req_state (requests d ! p)") (auto simp: subscribe_def)
  qed
qed (simp_all add: subscribe_def)

lemma keys_settle: "map req_key (requests (settle cfg p n d)) = map req_key (requests d)"
proof (cases "p < length (requests d) \<and> req_state (requests d ! p) = Pending")
  case True
  then show ?thesis by (simp add: settle_pending map_update list_update_same_conv)
next
  case False
  then show ?thesis by (simp add: settle_not_pending)
qed

lemma nnr_fetchReport:
  "loadingPromises d K \<noteq> None \<Longrightarrow> no_new_request K d (snd (fetchReport cfg t opts d))"
  by (cases rule: fetchReport_cases[of cfg t opts d]) (auto simp: no_new_request_def)

lemma nnr_loadCardData:
  assumes "loadingPromises d K \<noteq> None"
  shows "no_new_request K d (loadCardData cfg i t d)"
proof -
  let ?K = "generateCacheKey t \<lparr>filters = None, useGlobalFilters = True\<rparr> (globalFilters d)"
  show ?thesis
  proof (cases "cfg t")
    case None
    then show ?thesis by (simp add: loadCardData_def nnr_refl)
  next
    case (Some c)
    show ?thesis
    proof (cases "cache d ?K")
      case (Some x)
      with \<open>cfg t = Some c\<close> show ?thesis
        by (auto simp: loadCardData_def Let_def intro: nnr_same)
    next
      case None
      show ?thesis
      proof (cases "loadingPromises d ?K")
        case (Some pr)
        with \<open>cfg t = Some c\<close> None show ?thesis
          by (auto simp: loadCardData_def Let_def keys_subscribe intro: nnr_same)
      next
        case N: None
        show ?thesis
          unfolding loadCardData_miss[where cfg=cfg and t=t and c=c and d=d and i=i, OF \<open>cfg t = Some c\<close> None N]
          using N assms by (auto simp: no_new_request_def)
      qed
    qed
  qed
qed

lemma nnr_cardVisible:
  "loadingPromises d K \<noteq> None \<Longrightarrow> no_new_request K d (cardVisible cfg i d)"
  using nnr_loadCardData[of d K cfg i "trigger (cardElements d ! i)"]
  unfolding cardVisible_def Let_def by (auto simp: no_new_request_def)

lemma nnr_runReport:
  assumes "loadingPromises d K \<noteq> None"
  shows "no_new_request K d (runReport cfg type d)"
proof (cases "modals d type")
  case None
  then show ?thesis by (simp add: runReport_def nnr_refl)
next
  case (Some m)
  let ?d1 = "d\<lparr>modals := (modals d)(type \<mapsto> m\<lparr>loading := True, lastFilters := collectFilters m\<rparr>)\<rparr>"
  let ?o = "\<lparr>filters = Some (collectFilters m), useGlobalFilters = False\<rparr>"
  have a: "no_new_request K d ?d1" by (simp add: no_new_request_def)
  have b: "no_new_request K ?d1 (snd (fetchReport cfg (mtype m) ?o ?d1))"
    using assms by (intro nnr_fetchReport) simp
  have c: "no_new_request K (snd (fetchReport cfg (mtype m) ?o ?d1))
             (subscribe cfg (fst (fetchReport cfg (mtype m) ?o ?d1)) (ModalRun type)
                (snd (fetchReport cfg (mtype m) ?o ?d1)))"
    by (rule nnr_same) (rule keys_subscribe)
  show ?thesis unfolding runReport_unfold[OF Some]
    using a b c nnr_trans by blast
qed

lemma nnr_modal_open:
  assumes "loadingPromises d K \<noteq> None"
  shows "no_new_request K d (modal_open cfg type d)"
proof -
  have a: "no_new_request K d (d\<lparr>modals := ms, activeModal := am\<rparr>)" for ms am
    by (simp add: no_new_request_def)
  have b: "no_new_request K (d\<lparr>modals := ms, activeModal := am\<rparr>)
             (runReport cfg type (d\<lparr>modals := ms, activeModal := am\<rparr>))" for ms am
    using assms by (intro nnr_runReport) simp
  show ?thesis
    unfolding modal_open_def Let_def
    by (auto split: option.splits simp: nnr_refl a intro: nnr_trans[OF a b])
qed

lemma nnr_step:
  assumes "loadingPromises d K \<noteq> None" and "\<not> clears e"
  shows "no_new_request K d (step cfg e d)"
proof (cases e)
  case (CardVisible i)
  then show ?thesis using assms by (simp add: nnr_cardVisible)
next
  case (ApplyRange s t)
  then show ?thesis using assms by simp
next
  case (OpenModal t)
  then show ?thesis using assms by (simp add: nnr_modal_open)
next
  case (CloseModal t)
  then show ?thesis by (auto simp: modal_close_def no_new_request_def split: option.splits)
next
  case Escape
  then show ?thesis by (auto simp: modal_close_def no_new_request_def split: option.splits)
next
  case (RunReport t)
  then show ?thesis using assms by (simp add: nnr_runReport)
next
  case (EditFilter t j v)
  then show ?thesis by (auto simp: editFilter_def no_new_request_def split: option.splits)
next
  case (Settle p n)
  then show ?thesis by (simp add: nnr_same keys_settle)
qed

lemma quiet_run:
  "wf_dashboard d \<Longrightarrow> quiet cfg K d es \<Longrightarrow> loadingPromises d K = Some pr \<Longrightarrow>
   loadingPromises (run cfg es d) K = Some pr \<and> cache (run cfg es d) K = cache d K
   \<and> globalFilters (run cfg es d) = globalFilters d \<and> no_new_request K d (run cfg es d)"
proof (induction es arbitrary: d)
  case Nil
  then show ?case by (simp add: run_Nil nnr_refl)
next
  case (Cons e es)
  from Cons.prems(2) have ne: "\<not> clears e" and ns: "\<not> settles_key K d e"
    and rest: "quiet cfg K (step cfg e d) es" by auto
  have wf': "wf_dashboard (step cfg e d)" using Cons.prems(1) by (rule wf_step)
  have reg: "loadingPromises (step cfg e d) K = Some pr"
    using quiet_step(2)[OF Cons.prems(1) ne ns Cons.prems(3)] .
  have n1: "no_new_request K d (step cfg e d)" using Cons.prems(3) ne by (intro nnr_step) auto
  from Cons.IH[OF wf' rest reg] quiet_step(1)[OF Cons.prems(1) ne ns, of cfg]
       globalFilters_step[OF ne, of cfg d] n1
  show ?case by (auto simp: run_Cons intro: nnr_trans)
qed

section \<open>Coalescing\<close>

lemma nth_keys: "q < length (requests d) \<Longrightarrow> req_key (requests d ! q) = map req_key (requests d) ! q"
  by simp

text \<open>
  C2, as the code has it. In every state the page reaches, when a \<^verbatim>\<open>fetchReport\<close> call
  has issued a request, then after any events that neither apply the range (and so call
  \<^verbatim>\<open>clearCache\<close>) nor settle a request for the same key, the same call returns the very
  promise of that request and changes nothing: the request is still pending, and no
  further request for the key has been issued in between.
\<close>

theorem coalescing_while_registered:
  assumes "d0 = run cfg es0 (init_dashboard cs ms)"
    and "fetchReport cfg type opts d0 = (pr, d1)"
    and "length (requests d1) = Suc (length (requests d0))"
    and "quiet cfg (generateCacheKey type opts (globalFilters d0)) d1 es"
  shows "pr = OfRequest (length (requests d0))
       \<and> req_key (requests d1 ! length (requests d0)) = generateCacheKey type opts (globalFilters d0)
       \<and> fetchReport cfg type opts (run cfg es d1) = (pr, run cfg es d1)
       \<and> req_state (requests (run cfg es d1) ! length (requests d0)) = Pending
       \<and> (\<forall>q. length (requests d1) \<le> q \<and> q < length (requests (run cfg es d1))
              \<longrightarrow> req_key (requests (run cfg es d1) ! q) \<noteq> generateCacheKey type opts (globalFilters d0))"
proof -
  let ?K = "generateCacheKey type opts (globalFilters d0)"
  let ?p = "length (requests d0)"
  let ?d' = "run cfg es d1"
  have wf0: "wf_dashboard d0" unfolding assms(1) by (rule wf_reachable)
  have wf1: "wf_dashboard d1" using wf_fetchReport[OF wf0, of cfg type opts] assms(2) by simp
  have ne: "snd (fetchReport cfg type opts d0) \<noteq> d0" using assms(2,3) by auto
  have "\<exists>c. cfg type = Some c \<and> cache d0 ?K = None
          \<and> fetchReport cfg type opts d0 =
              (OfRequest ?p,
               d0\<lparr>requests := requests d0 @
                    [\<lparr>req_url = fetchReport_url c opts (globalFilters d0), req_key = ?K,
                      req_state = Pending, reactions = []\<rparr>],
                  loadingPromises := (loadingPromises d0)(?K \<mapsto> OfRequest ?p)\<rparr>)"
  proof (cases rule: fetchReport_cases[of cfg type opts d0])
    case unknown
    with ne show ?thesis by simp
  next
    case (hit c x)
    with ne show ?thesis by simp
  next
    case (inflight c pr')
    with ne show ?thesis by simp
  next
    case (new c)
    then show ?thesis by blast
  qed
  then obtain c where c: "cfg type = Some c" and c0: "cache d0 ?K = None"
    and fr: "fetchReport cfg type opts d0 =
              (OfRequest ?p,
               d0\<lparr>requests := requests d0 @
                    [\<lparr>req_url = fetchReport_url c opts (globalFilters d0), req_key = ?K,
                      req_state = Pending, reactions = []\<rparr>],
                  loadingPromises := (loadingPromises d0)(?K \<mapsto> OfRequest ?p)\<rparr>)"
    by blast
  from fr assms(2) have pr: "pr = OfRequest ?p"
    and d1: "d1 = d0\<lparr>requests := requests d0 @
               [\<lparr>req_url = fetchReport_url c opts (globalFilters d0), req_key = ?K,
                 req_state = Pending, reactions = []\<rparr>],
            loadingPromises := (loadingPromises d0)(?K \<mapsto> OfRequest ?p)\<rparr>"
    by simp_all
  have reg1: "loadingPromises d1 ?K = Some pr" and c1: "cache d1 ?K = None"
    and g1: "globalFilters d1 = globalFilters d0"
    and k1: "req_key (requests d1 ! ?p) = ?K"
    using c0 by (simp_all add: d1 pr)
  from quiet_run[OF wf1 assms(4) reg1]
  have reg: "loadingPromises ?d' ?K = Some pr" and ca: "cache ?d' ?K = None"
    and g: "globalFilters ?d' = globalFilters d0" and nn: "no_new_request ?K d1 ?d'"
    using c1 g1 by auto
  have f: "fetchReport cfg type opts ?d' = (pr, ?d')"
    using fetchReport_inflight[where cfg=cfg and t=type and c=c and d="?d'" and opts=opts and pr=pr]
          c reg ca g by simp
  have "wf_dashboard ?d'" using wf1 by (rule wf_run)
  then obtain q where "pr = OfRequest q" "req_state (requests ?d' ! q) = Pending"
    using reg unfolding wf_dashboard_def by blast
  with pr have pend: "req_state (requests ?d' ! ?p) = Pending" by simp
  have none: "\<forall>q. length (requests d1) \<le> q \<and> q < length (requests ?d')
              \<longrightarrow> req_key (requests ?d' ! q) \<noteq> ?K"
  proof (intro allI impI)
    fix q
    assume h: "length (requests d1) \<le> q \<and> q < length (requests ?d')"
    from nn obtain ks where ks: "map req_key (requests ?d') = map req_key (requests d1) @ ks"
      and K: "?K \<notin> set ks" unfolding no_new_request_def by blast
    from arg_cong[OF ks, of length] have len: "length (requests ?d') = length (requests d1) + length ks"
      by simp
    have "req_key (requests ?d' ! q) = (map req_key (requests d1) @ ks) ! q"
      using h ks nth_keys[of q ?d'] by simp
    also have "\<dots> = ks ! (q - length (requests d1))"
      using h by (simp add: nth_append)
    finally have "req_key (requests ?d' ! q) = ks ! (q - length (requests d1))" .
    moreover have "q - length (requests d1) < length ks" using h len by arith
    ultimately have "req_key (requests ?d' ! q) \<in> set ks" by (metis nth_mem)
    with K show "req_key (requests ?d' ! q) \<noteq> ?K" by auto
  qed
  from pr k1 f pend none show ?thesis by blast
qed

theorem coalescing_while_registered_witness:
  "length (requests (snd (fetchReport sample_config ''total-sales''
              \<lparr>filters = Some [(''start'', Str []), (''end'', Str [])], useGlobalFilters = False\<rparr>
              sample_page))) = Suc (length (requests sample_page))
   \<and> quiet sample_config
         (generateCacheKey ''total-sales''
            \<lparr>filters = Some [(''start'', Str []), (''end'', Str [])], useGlobalFilters = False\<rparr>
            (globalFilters sample_page))
         (snd (fetchReport sample_config ''total-sales''
              \<lparr>filters = Some [(''start'', Str []), (''end'', Str [])], useGlobalFilters = False\<rparr>
              sample_page))
         [CardVisible 0, OpenModal ''total-sales'']
   \<and> fetchReport sample_config ''total-sales''
         \<lparr>filters = Some [(''start'', Str []), (''end'', Str [])], useGlobalFilters = False\<rparr>
         (run sample_config [CardVisible 0, OpenModal ''total-sales'']
            (snd (fetchReport sample_config ''total-sales''
              \<lparr>filters = Some [(''start'', Str []), (''end'', Str [])], useGlobalFilters = False\<rparr>
              sample_page)))
       = (OfRequest 0,
          run sample_config [CardVisible 0, OpenModal ''total-sales'']
            (snd (fetchReport sample_config ''total-sales''
              \<lparr>filters = Some [(''start'', Str []), (''end'', Str [])], useGlobalFilters = False\<rparr>
              sample_page)))"
proof -
  let ?o = "\<lparr>filters = Some [(''start'', Str []), (''end'', Str [])], useGlobalFilters = False\<rparr>"
  let ?f = "fetchReport sample_config ''total-sales'' ?o sample_page"
  let ?es = "[CardVisible 0, OpenModal ''total-sales'']"
  have r: "sample_page = run sample_config [] (init_dashboard [sample_card ''inventory-cost'', sample_card ''total-sales'']
       [''total-sales'' \<mapsto> sample_modal ''total-sales''])"
    by (simp add: sample_page_def run_def)
  have a: "?f = (fst ?f, snd ?f)" by simp
  have b: "length (requests (snd ?f)) = Suc (length (requests sample_page))" by code_simp
  have c: "quiet sample_config (generateCacheKey ''total-sales'' ?o (globalFilters sample_page)) (snd ?f) ?es"
    by simp
  have e: "length (requests sample_page) = 0" by code_simp
  from coalescing_while_registered[OF r a b c] b c e show ?thesis by simp
qed

text \<open>
  C2, as stated, fails. The first card scrolls into view and its request goes out; the
  range is applied with both inputs empty, which clears the registry and reloads the
  cards. The same key and URL are requested a second time while the first request is
  still pending, and a later caller is handed the second promise.
\<close>

theorem second_request_after_clearCache_counterexample:
  "req_state (requests (run sample_config [CardVisible 0] sample_page) ! 0) = Pending
   \<and> length (requests (run sample_config [CardVisible 0] sample_page)) = 1
   \<and> length (requests (run sample_config [CardVisible 0, ApplyRange [] []] sample_page)) = 3
   \<and> req_key (requests (run sample_config [CardVisible 0, ApplyRange [] []] sample_page) ! 1)
       = req_key (requests (run sample_config [CardVisible 0, ApplyRange [] []] sample_page) ! 0)
   \<and> req_url (requests (run sample_config [CardVisible 0, ApplyRange [] []] sample_page) ! 1)
       = req_url (requests (run sample_config [CardVisible 0, ApplyRange [] []] sample_page) ! 0)
   \<and> req_state (requests (run sample_config [CardVisible 0, ApplyRange [] []] sample_page) ! 0) = Pending
   \<and> req_state (requests (run sample_config [CardVisible 0, ApplyRange [] []] sample_page) ! 1) = Pending
   \<and> fst (fetchReport sample_config ''inventory-cost'' \<lparr>filters = None, useGlobalFilters = True\<rparr>
             (run sample_config [CardVisible 0, ApplyRange [] []] sample_page)) = OfRequest 1"
  by code_simp

section \<open>The first open of a modal\<close>

lemma kl_refl: "keeps_loaded d d"
  by (simp add: keeps_loaded_def)

lemma kl_same: "modals d' = modals d \<Longrightarrow> keeps_loaded d d'"
  by (simp add: keeps_loaded_def)

lemma kl_trans: "keeps_loaded a b \<Longrightarrow> keeps_loaded b c \<Longrightarrow> keeps_loaded a c"
  unfolding keeps_loaded_def by blast

lemma kl_update:
  "modals d t = Some m \<Longrightarrow> (loadedOnce m \<Longrightarrow> loadedOnce m') \<Longrightarrow> modals d' = (modals d)(t \<mapsto> m')
   \<Longrightarrow> keeps_loaded d d'"
  unfolding keeps_loaded_def by auto


lemma run_reaction_ModalRun_success:
  "modals d t = Some m \<Longrightarrow> render m data = Some m' \<Longrightarrow>
   modals (run_reaction cfg (ModalRun t) (Inr data) d) = (modals d)(t \<mapsto> m'\<lparr>loadedOnce := True, loading := False\<rparr>)"
  by (simp add: run_reaction.simps)

lemma run_reaction_ModalRun_render_fails:
  "modals d t = Some m \<Longrightarrow> render m data = None \<Longrightarrow>
   modals (run_reaction cfg (ModalRun t) (Inr data) d) = (modals d)(t \<mapsto> m\<lparr>loading := False\<rparr>)"
  by (simp add: run_reaction.simps Let_def)

lemma run_reaction_ModalRun_failure:
  "modals d t = Some m \<Longrightarrow>
   modals (run_reaction cfg (ModalRun t) (Inl e) d) = (modals d)(t \<mapsto> m\<lparr>loading := False\<rparr>)"
  by (simp add: run_reaction.simps Let_def)

lemma modals_run_reaction_card:
  "(\<And>t. r \<noteq> ModalRun t) \<Longrightarrow> modals (run_reaction cfg r res d) = modals d"
  by (cases "(cfg, r, res, d)" rule: run_reaction.cases) (auto simp: run_reaction.simps Let_def)

lemma kl_run_reaction: "keeps_loaded d (run_reaction cfg r res d)"
proof (cases r)
  case (CardOwner i t k)
  then show ?thesis by (intro kl_same modals_run_reaction_card) simp
next
  case (CardWaiter i t)
  then show ?thesis by (intro kl_same modals_run_reaction_card) simp
next
  case (ModalRun t)
  show ?thesis
  proof (cases "modals d t")
    case None
    with ModalRun show ?thesis by (cases res) (simp_all add: run_reaction.simps kl_refl)
  next
    case (Some m)
    show ?thesis
    proof (cases res)
      case (Inl e)
      from kl_update[OF Some _ run_reaction_ModalRun_failure[OF Some, of cfg e]] ModalRun Inl
      show ?thesis by simp
    next
      case (Inr data)
      show ?thesis
      proof (cases "render m data")
        case None
        from kl_update[OF Some _ run_reaction_ModalRun_render_fails[OF Some None, of cfg]] ModalRun Inr
        show ?thesis by simp
      next
        case (Some m')
        from kl_update[OF \<open>modals d t = Some m\<close> _ run_reaction_ModalRun_success[OF \<open>modals d t = Some m\<close> Some, of cfg]]
          ModalRun Inr
        show ?thesis by simp
      qed
    qed
  qed
qed

lemma kl_reactions: "keeps_loaded d (foldl (\<lambda>s r. run_reaction cfg r res s) d rs)"
proof (induction rs arbitrary: d)
  case Nil
  then show ?case by (simp add: kl_refl)
next
  case (Cons r rs)
  from kl_trans[OF kl_run_reaction[of d cfg r res] Cons[of "run_reaction cfg r res d"]]
  show ?case by simp
qed

lemma kl_subscribe: "keeps_loaded d (subscribe cfg pr r d)"
proof (cases pr)
  case (OfRequest p)
  then show ?thesis
    by (cases "req_state (requests d ! p)")
       (auto simp: subscribe_def kl_run_reaction kl_refl intro: kl_same)
qed (simp_all add: subscribe_def kl_run_reaction)

lemma kl_loadCardData: "keeps_loaded d (loadCardData cfg i t d)"
proof -
  let ?K = "generateCacheKey t \<lparr>filters = None, useGlobalFilters = True\<rparr> (globalFilters d)"
  show ?thesis
  proof (cases "cfg t")
    case None
    then show ?thesis by (simp add: loadCardData_def kl_refl)
  next
    case (Some c)
    show ?thesis
    proof (cases "cache d ?K")
      case (Some x)
      with \<open>cfg t = Some c\<close> show ?thesis
        by (auto simp: loadCardData_def Let_def intro: kl_same)
    next
      case None
      show ?thesis
      proof (cases "loadingPromises d ?K")
        case (Some pr)
        with \<open>cfg t = Some c\<close> None show ?thesis
          by (auto simp: loadCardData_def Let_def kl_subscribe)
      next
        case N: None
        show ?thesis
          unfolding loadCardData_miss[where cfg=cfg and t=t and c=c and d=d and i=i, OF \<open>cfg t = Some c\<close> None N]
          by (rule kl_same) simp
      qed
    qed
  qed
qed

lemma kl_refreshCards_fold:
  "keeps_loaded d (foldl (\<lambda>s (type, i). loadCardData cfg i type s) d xs)"
proof (induction xs arbitrary: d)
  case Nil
  then show ?case by (simp add: kl_refl)
next
  case (Cons x xs)
  obtain t i where x: "x = (t, i)" by (cases x)
  from kl_trans[OF kl_loadCardData[of d cfg i t] Cons[of "loadCardData cfg i t d"]] x
  show ?case by simp
qed

lemma kl_applyRange: "keeps_loaded d (applyRange cfg s e d)"
proof -
  let ?d2 = "clearCache (d\<lparr>globalFilters := \<lparr>range_start = s, range_end = e\<rparr>\<rparr>)"
  have a: "keeps_loaded d ?d2" by (rule kl_same) (simp add: clearCache_def)
  have b: "keeps_loaded ?d2 (refreshCards cfg ?d2)" unfolding refreshCards_def by (rule kl_refreshCards_fold)
  have c: "keeps_loaded (refreshCards cfg ?d2) (applyRange cfg s e d)"
    by (rule kl_same) (simp add: applyRange_def Let_def)
  from a b c show ?thesis using kl_trans by blast
qed

lemma kl_cardVisible: "keeps_loaded d (cardVisible cfg i d)"
  using kl_loadCardData[of d cfg i "trigger (cardElements d ! i)"]
  unfolding cardVisible_def Let_def by (auto simp: keeps_loaded_def)

lemma kl_runReport: "keeps_loaded d (runReport cfg type d)"
proof (cases "modals d type")
  case None
  then show ?thesis by (simp add: runReport_def kl_refl)
next
  case (Some m)
  let ?d1 = "d\<lparr>modals := (modals d)(type \<mapsto> m\<lparr>loading := True, lastFilters := collectFilters m\<rparr>)\<rparr>"
  let ?o = "\<lparr>filters = Some (collectFilters m), useGlobalFilters = False\<rparr>"
  have a: "keeps_loaded d ?d1" by (rule kl_update[OF Some]) simp_all
  have b: "keeps_loaded ?d1 (snd (fetchReport cfg (mtype m) ?o ?d1))" by (rule kl_same) simp
  have c: "keeps_loaded (snd (fetchReport cfg (mtype m) ?o ?d1))
             (subscribe cfg (fst (fetchReport cfg (mtype m) ?o ?d1)) (ModalRun type)
                (snd (fetchReport cfg (mtype m) ?o ?d1)))"
    by (rule kl_subscribe)
  show ?thesis unfolding runReport_unfold[OF Some]
    using a b c kl_trans by blast
qed

lemma loadedOnce_sync [simp]: "loadedOnce (syncWithGlobalFilters g m) = loadedOnce m"
  by (simp add: syncWithGlobalFilters_def)

lemma tableBody_sync [simp]: "tableBody (syncWithGlobalFilters g m) = tableBody m"
  by (simp add: syncWithGlobalFilters_def)

lemma kl_modal_open: "keeps_loaded d (modal_open cfg type d)"
proof (cases "modals d type")
  case None
  then show ?thesis by (simp add: modal_open_def kl_refl)
next
  case (Some m)
  let ?m2 = "syncWithGlobalFilters (globalFilters d) (m\<lparr>is_visible := True, isOpen := True\<rparr>)"
  let ?d1 = "d\<lparr>modals := (modals d)(type \<mapsto> ?m2), activeModal := Some type\<rparr>"
  have a: "keeps_loaded d ?d1" by (rule kl_update[OF Some, of ?m2]) simp_all
  have b: "keeps_loaded ?d1 (runReport cfg type ?d1)" by (rule kl_runReport)
  from a b have c: "keeps_loaded d (runReport cfg type ?d1)" by (rule kl_trans)
  show ?thesis using Some a c by (simp add: modal_open_def Let_def kl_refl)
qed

lemma kl_modal_close: "keeps_loaded d (modal_close type d)"
proof (cases "modals d type")
  case None
  then show ?thesis by (simp add: modal_close_def kl_refl)
next
  case (Some m)
  have "keeps_loaded d (d\<lparr>modals := (modals d)(type \<mapsto> m\<lparr>is_visible := False, isOpen := False\<rparr>),
                          activeModal := None\<rparr>)"
    by (rule kl_update[OF Some]) simp_all
  with Some show ?thesis by (simp add: modal_close_def kl_refl)
qed

lemma kl_editFilter: "keeps_loaded d (editFilter type j v d)"
proof (cases "modals d type")
  case None
  then show ?thesis by (simp add: editFilter_def kl_refl)
next
  case (Some m)
  have "keeps_loaded d (d\<lparr>modals := (modals d)(type \<mapsto> m\<lparr>filterNodes := fs\<rparr>)\<rparr>)" for fs
    by (rule kl_update[OF Some]) simp_all
  with Some show ?thesis by (simp add: editFilter_def kl_refl)
qed

lemma kl_settle: "keeps_loaded d (settle cfg p n d)"
proof (cases "p < length (requests d) \<and> req_state (requests d ! p) = Pending")
  case False
  then show ?thesis by (simp add: settle_not_pending kl_refl)
next
  case True
  let ?d2 = "d\<lparr>cache := (case chain_result n of Inr data \<Rightarrow> (cache d)(req_key (requests d ! p) \<mapsto> data)
                      | Inl e \<Rightarrow> cache d),
          loadingPromises := (loadingPromises d)(req_key (requests d ! p) := None),
          requests := (requests d)
            [p := (requests d ! p)\<lparr>req_state := (case chain_result n of Inr data \<Rightarrow> Fulfilled data
                                                      | Inl e \<Rightarrow> Rejected e)\<rparr>]\<rparr>"
  have a: "keeps_loaded d ?d2" by (rule kl_same) simp
  from True kl_trans[OF a kl_reactions[of ?d2 cfg "chain_result n" "reactions (requests d ! p)"]]
  show ?thesis by (simp add: settle_pending)
qed

lemma kl_step: "keeps_loaded d (step cfg e d)"
  by (cases e)
     (auto simp: kl_cardVisible kl_applyRange kl_modal_open kl_modal_close kl_runReport
                 kl_editFilter kl_settle kl_refl split: option.splits)

lemma kl_run: "keeps_loaded d (run cfg es d)"
proof (induction es arbitrary: d)
  case Nil
  then show ?case by (simp add: run_Nil kl_refl)
next
  case (Cons e es)
  from kl_trans[OF kl_step[of d cfg e] Cons[of "step cfg e d"]]
  show ?case by (simp add: run_Cons)
qed

text \<open>
  C8, as the code has it. \<^verbatim>\<open>open()\<close> on an open modal does nothing. On a closed modal it
  shows the modal and synchronizes its filters, and then: if \<^verbatim>\<open>loadedOnce\<close> is set it
  stops there, the table as it was rendered; if not, it calls \<^verbatim>\<open>runReport\<close>.
  \<^verbatim>\<open>loadedOnce\<close> is set when a run resolves and renders, stays as it is when a run is
  rejected, and once set is never reset by any sequence of events.
\<close>

theorem auto_run_until_loaded_once:
  assumes "modals d type = Some m"
  shows "(isOpen m \<longrightarrow> modal_open cfg type d = d)
       \<and> (\<not> isOpen m \<and> loadedOnce m \<longrightarrow>
            modal_open cfg type d =
              d\<lparr>modals := (modals d)(type \<mapsto> syncWithGlobalFilters (globalFilters d)
                                                 (m\<lparr>is_visible := True, isOpen := True\<rparr>)),
                activeModal := Some type\<rparr>
            \<and> tableBody (syncWithGlobalFilters (globalFilters d) (m\<lparr>is_visible := True, isOpen := True\<rparr>))
                = tableBody m)
       \<and> (\<not> isOpen m \<and> \<not> loadedOnce m \<longrightarrow>
            modal_open cfg type d =
              runReport cfg type
                (d\<lparr>modals := (modals d)(type \<mapsto> syncWithGlobalFilters (globalFilters d)
                                                   (m\<lparr>is_visible := True, isOpen := True\<rparr>)),
                  activeModal := Some type\<rparr>))
       \<and> (loadedOnce m \<longrightarrow> (\<forall>es. \<exists>m'. modals (run cfg es d) type = Some m' \<and> loadedOnce m'))
       \<and> (\<forall>data m'. render m data = Some m' \<longrightarrow>
            (\<exists>m''. modals (run_reaction cfg (ModalRun type) (Inr data) d) type = Some m'' \<and> loadedOnce m''))
       \<and> (\<forall>e. \<exists>m''. modals (run_reaction cfg (ModalRun type) (Inl e) d) type = Some m''
                    \<and> loadedOnce m'' = loadedOnce m)"
proof -
  have a: "isOpen m \<longrightarrow> modal_open cfg type d = d"
    using assms by (simp add: modal_open_def)
  have b: "\<not> isOpen m \<and> loadedOnce m \<longrightarrow>
            modal_open cfg type d =
              d\<lparr>modals := (modals d)(type \<mapsto> syncWithGlobalFilters (globalFilters d)
                                                 (m\<lparr>is_visible := True, isOpen := True\<rparr>)),
                activeModal := Some type\<rparr>
            \<and> tableBody (syncWithGlobalFilters (globalFilters d) (m\<lparr>is_visible := True, isOpen := True\<rparr>))
                = tableBody m"
    using assms by (simp add: modal_open_def Let_def)
  have c: "\<not> isOpen m \<and> \<not> loadedOnce m \<longrightarrow>
            modal_open cfg type d =
              runReport cfg type
                (d\<lparr>modals := (modals d)(type \<mapsto> syncWithGlobalFilters (globalFilters d)
                                                   (m\<lparr>is_visible := True, isOpen := True\<rparr>)),
                  activeModal := Some type\<rparr>)"
    using assms by (simp add: modal_open_def Let_def)
  have e: "loadedOnce m \<longrightarrow> (\<forall>es. \<exists>m'. modals (run cfg es d) type = Some m' \<and> loadedOnce m')"
    using kl_run[of d cfg] assms unfolding keeps_loaded_def by blast
  have f: "\<forall>data m'. render m data = Some m' \<longrightarrow>
            (\<exists>m''. modals (run_reaction cfg (ModalRun type) (Inr data) d) type = Some m'' \<and> loadedOnce m'')"
    using assms by (simp add: run_reaction_ModalRun_success)
  have g: "\<forall>e. \<exists>m''. modals (run_reaction cfg (ModalRun type) (Inl e) d) type = Some m''
                    \<and> loadedOnce m'' = loadedOnce m"
    using assms by (simp add: run_reaction_ModalRun_failure)
  from a b c e f g show ?thesis by blast
qed

theorem auto_run_until_loaded_once_witness:
  "\<not> isOpen (sample_modal ''total-sales'') \<and> \<not> loadedOnce (sample_modal ''total-sales'')
   \<and> modal_open sample_config ''total-sales'' sample_page =
       runReport sample_config ''total-sales''
         (sample_page\<lparr>modals := (modals sample_page)(''total-sales'' \<mapsto>
                          syncWithGlobalFilters (globalFilters sample_page)
                            ((sample_modal ''total-sales'')\<lparr>is_visible := True, isOpen := True\<rparr>)),
                       activeModal := Some ''total-sales''\<rparr>)
   \<and> isOpen (the (modals (run sample_config [OpenModal ''total-sales''] sample_page) ''total-sales''))
   \<and> modal_open sample_config ''total-sales'' (run sample_config [OpenModal ''total-sales''] sample_page)
       = run sample_config [OpenModal ''total-sales''] sample_page
   \<and> \<not> isOpen (the (modals (run sample_config
            [OpenModal ''total-sales'', Settle 0 (Headers 120 200 ''OK'' (Inr (JObject [(''rows'', JArray [])]))),
             CloseModal ''total-sales''] sample_page) ''total-sales''))
   \<and> loadedOnce (the (modals (run sample_config
            [OpenModal ''total-sales'', Settle 0 (Headers 120 200 ''OK'' (Inr (JObject [(''rows'', JArray [])]))),
             CloseModal ''total-sales''] sample_page) ''total-sales''))
   \<and> requests (modal_open sample_config ''total-sales'' (run sample_config
            [OpenModal ''total-sales'', Settle 0 (Headers 120 200 ''OK'' (Inr (JObject [(''rows'', JArray [])]))),
             CloseModal ''total-sales''] sample_page))
       = requests (run sample_config
            [OpenModal ''total-sales'', Settle 0 (Headers 120 200 ''OK'' (Inr (JObject [(''rows'', JArray [])]))),
             CloseModal ''total-sales''] sample_page)"
proof -
  let ?t = "''total-sales''"
  let ?d1 = "run sample_config [OpenModal ?t] sample_page"
  let ?d2 = "run sample_config
            [OpenModal ?t, Settle 0 (Headers 120 200 ''OK'' (Inr (JObject [(''rows'', JArray [])]))),
             CloseModal ?t] sample_page"
  have m0: "modals sample_page ?t = Some (sample_modal ?t)"
    by (simp add: sample_page_def init_dashboard_def)
  have c0: "\<not> isOpen (sample_modal ?t) \<and> \<not> loadedOnce (sample_modal ?t)"
    by (simp add: sample_modal_def)
  have "\<not> Option.is_none (modals ?d1 ?t)" by code_simp
  then have m1: "modals ?d1 ?t = Some (the (modals ?d1 ?t))" by (simp add: Option.is_none_def)
  have c1: "isOpen (the (modals ?d1 ?t))" by code_simp
  have "\<not> Option.is_none (modals ?d2 ?t)" by code_simp
  then have m2: "modals ?d2 ?t = Some (the (modals ?d2 ?t))" by (simp add: Option.is_none_def)
  have c2: "\<not> isOpen (the (modals ?d2 ?t))" by code_simp
  have c3: "loadedOnce (the (modals ?d2 ?t))" by code_simp
  from auto_run_until_loaded_once[OF m0, of sample_config] c0
  have r0: "modal_open sample_config ?t sample_page =
       runReport sample_config ?t
         (sample_page\<lparr>modals := (modals sample_page)(?t \<mapsto>
                          syncWithGlobalFilters (globalFilters sample_page)
                            ((sample_modal ?t)\<lparr>is_visible := True, isOpen := True\<rparr>)),
                       activeModal := Some ?t\<rparr>)" by blast
  from auto_run_until_loaded_once[OF m1, of sample_config] c1
  have r1: "modal_open sample_config ?t ?d1 = ?d1" by blast
  from auto_run_until_loaded_once[OF m2, of sample_config] c2 c3
  have "modal_open sample_config ?t ?d2 =
          ?d2\<lparr>modals := (modals ?d2)(?t \<mapsto> syncWithGlobalFilters (globalFilters ?d2)
                                                 ((the (modals ?d2 ?t))\<lparr>is_visible := True, isOpen := True\<rparr>)),
                activeModal := Some ?t\<rparr>" by blast
  then have r2: "requests (modal_open sample_config ?t ?d2) = requests ?d2" by simp
  from c0 r0 c1 r1 c2 c3 r2 show ?thesis by blast
qed

text \<open>
  C8, as stated, fails. The first open runs the report and the request fails with status
  500; the modal is closed and opened again. The second open runs the report again: a
  second request goes out. Likewise when the modal is closed and reopened before the first
  request settles: the second open chains a second continuation on the same promise.
\<close>

theorem second_open_runs_again_counterexample:
  "length (requests (run sample_config
      [OpenModal ''total-sales'', Settle 0 (Headers 120 500 ''Internal Server Error'' (Inl [])),
       CloseModal ''total-sales''] sample_page)) = 1
   \<and> length (requests (run sample_config
      [OpenModal ''total-sales'', Settle 0 (Headers 120 500 ''Internal Server Error'' (Inl [])),
       CloseModal ''total-sales'', OpenModal ''total-sales''] sample_page)) = 2
   \<and> req_state (requests (run sample_config
      [OpenModal ''total-sales'', Settle 0 (Headers 120 500 ''Internal Server Error'' (Inl [])),
       CloseModal ''total-sales'', OpenModal ''total-sales''] sample_page) ! 1) = Pending
   \<and> reactions (requests (run sample_config
      [OpenModal ''total-sales'', CloseModal ''total-sales'', OpenModal ''total-sales''] sample_page) ! 0)
       = [ModalRun ''total-sales'', ModalRun ''total-sales'']"
  by code_simp

section \<open>Cards and modals\<close>

lemma fetchReport_request_key:
  assumes "wf_dashboard d" and "fetchReport cfg t opts d = (OfRequest p, d')"
  shows "p < length (requests d') \<and> req_key (requests d' ! p) = generateCacheKey t opts (globalFilters d)"
proof (cases rule: fetchReport_cases[of cfg t opts d])
  case unknown
  with assms(2) show ?thesis by simp
next
  case (hit c x)
  with assms(2) show ?thesis by simp
next
  case (inflight c pr)
  with assms(2) have "loadingPromises d (generateCacheKey t opts (globalFilters d)) = Some (OfRequest p)"
    and "d' = d" by simp_all
  with assms(1) show ?thesis unfolding wf_dashboard_def by fastforce
next
  case (new c)
  with assms(2) show ?thesis by auto
qed

text \<open>
  C10. For one report type, the key of a card load (\<^verbatim>\<open>useGlobalFilters: true\<close>) and the
  key of a modal run (the collected filters, \<^verbatim>\<open>useGlobalFilters\<close> absent) differ, whatever
  the filters and whatever the global range at either call: after the type and a dash the
  one reads \<^verbatim>\<open>global\<close>, the other \<^verbatim>\<open>custom\<close>. And in every state the page reaches, the
  promise \<^verbatim>\<open>fetchReport\<close> hands to a modal run is never that of a request made under a
  card key, nor the other way round: the two neither share a cache slot nor coalesce.
\<close>

theorem card_and_modal_never_share:
  assumes "d = run cfg es (init_dashboard cs ms)"
  shows "generateCacheKey type \<lparr>filters = fc, useGlobalFilters = True\<rparr> g1
           \<noteq> generateCacheKey type \<lparr>filters = Some (collectFilters m), useGlobalFilters = False\<rparr> g2
       \<and> (\<forall>p d'. fetchReport cfg type \<lparr>filters = Some (collectFilters m), useGlobalFilters = False\<rparr> d
                     = (OfRequest p, d')
             \<longrightarrow> p < length (requests d')
                 \<and> req_key (requests d' ! p)
                     \<noteq> generateCacheKey type \<lparr>filters = fc, useGlobalFilters = True\<rparr> g1)
       \<and> (\<forall>p d'. fetchReport cfg type \<lparr>filters = None, useGlobalFilters = True\<rparr> d = (OfRequest p, d')
             \<longrightarrow> p < length (requests d')
                 \<and> req_key (requests d' ! p)
                     \<noteq> generateCacheKey type \<lparr>filters = Some (collectFilters m), useGlobalFilters = False\<rparr> g2)"
proof -
  have wf: "wf_dashboard d" unfolding assms by (rule wf_reachable)
  have k: "generateCacheKey type \<lparr>filters = a, useGlobalFilters = True\<rparr> x
             \<noteq> generateCacheKey type \<lparr>filters = b, useGlobalFilters = False\<rparr> y" for a b x y
    by (simp add: generateCacheKey_def)
  have m: "p < length (requests d')
           \<and> req_key (requests d' ! p) \<noteq> generateCacheKey type \<lparr>filters = fc, useGlobalFilters = True\<rparr> g1"
    if "fetchReport cfg type \<lparr>filters = Some (collectFilters m), useGlobalFilters = False\<rparr> d = (OfRequest p, d')"
    for p d'
    using fetchReport_request_key[OF wf that] k[of fc g1 "Some (collectFilters m)" "globalFilters d"]
    by (metis)
  have c: "p < length (requests d')
           \<and> req_key (requests d' ! p)
               \<noteq> generateCacheKey type \<lparr>filters = Some (collectFilters m), useGlobalFilters = False\<rparr> g2"
    if "fetchReport cfg type \<lparr>filters = None, useGlobalFilters = True\<rparr> d = (OfRequest p, d')"
    for p d'
    using fetchReport_request_key[OF wf that] k[of None "globalFilters d" "Some (collectFilters m)" g2]
    by (metis)
  from k m c show ?thesis by blast
qed

theorem card_and_modal_never_share_witness:
  "fetchReport sample_config ''total-sales''
       \<lparr>filters = Some (collectFilters (sample_modal ''total-sales'')), useGlobalFilters = False\<rparr> sample_page
     = (OfRequest 0, snd (fetchReport sample_config ''total-sales''
         \<lparr>filters = Some (collectFilters (sample_modal ''total-sales'')), useGlobalFilters = False\<rparr> sample_page))
   \<and> fetchReport sample_config ''total-sales'' \<lparr>filters = None, useGlobalFilters = True\<rparr> sample_page
     = (OfRequest 0, snd (fetchReport sample_config ''total-sales''
         \<lparr>filters = None, useGlobalFilters = True\<rparr> sample_page))
   \<and> req_key (requests (snd (fetchReport sample_config ''total-sales''
         \<lparr>filters = Some (collectFilters (sample_modal ''total-sales'')), useGlobalFilters = False\<rparr> sample_page)) ! 0)
     \<noteq> generateCacheKey ''total-sales'' \<lparr>filters = None, useGlobalFilters = True\<rparr> (globalFilters sample_page)
   \<and> req_key (requests (snd (fetchReport sample_config ''total-sales''
         \<lparr>filters = None, useGlobalFilters = True\<rparr> sample_page)) ! 0)
     \<noteq> generateCacheKey ''total-sales''
         \<lparr>filters = Some (collectFilters (sample_modal ''total-sales'')), useGlobalFilters = False\<rparr>
         (globalFilters sample_page)"
proof -
  let ?om = "\<lparr>filters = Some (collectFilters (sample_modal ''total-sales'')), useGlobalFilters = False\<rparr>"
  let ?oc = "\<lparr>filters = None, useGlobalFilters = True\<rparr>"
  have r: "sample_page = run sample_config [] (init_dashboard [sample_card ''inventory-cost'', sample_card ''total-sales'']
       [''total-sales'' \<mapsto> sample_modal ''total-sales''])"
    by (simp add: sample_page_def run_def)
  have "fst (fetchReport sample_config ''total-sales'' ?om sample_page) = OfRequest 0" by code_simp
  then have a: "fetchReport sample_config ''total-sales'' ?om sample_page
                = (OfRequest 0, snd (fetchReport sample_config ''total-sales'' ?om sample_page))"
    by (metis prod.collapse)
  have "fst (fetchReport sample_config ''total-sales'' ?oc sample_page) = OfRequest 0" by code_simp
  then have b: "fetchReport sample_config ''total-sales'' ?oc sample_page
                = (OfRequest 0, snd (fetchReport sample_config ''total-sales'' ?oc sample_page))"
    by (metis prod.collapse)
  from card_and_modal_never_share[OF r, of "''total-sales''" None "globalFilters sample_page"
         "sample_modal ''total-sales''" "globalFilters sample_page"] a b
  show ?thesis by blast
qed

end
